theory Spec2Isabelle
  imports Complex_Main
begin

section \<open>The realtime channel of the web client: the useWebSocket hook\<close>

text \<open>
  The hook keeps its state in React refs (wsRef, reconnectTimeoutRef, connectionAttemptsRef,
  shouldReconnectRef, heartbeatIntervalRef, lastPongRef) and two React state cells
  (isConnected, connectionStatus). All of its code runs in callbacks of the single-threaded
  event loop, so the embedding is a record of these cells and one function per callback,
  each taking the record and returning it updated. What a callback does to the outside
  (socket calls, calls of the owner's handlers, console output, timers) is appended to the
  field \<open>log\<close>.
\<close>

subsection \<open>Values produced by JSON.parse\<close>

datatype json =
    JUndefined
  | JNull
  | JBool bool
  | JNum real
  | JStr string
  | JArr "json list"
  | JObj "(string \<times> json) list"

text \<open>JavaScript truthiness, as used by \<open>&&\<close> and \<open>||\<close>.\<close>

fun truthy :: "json \<Rightarrow> bool" where
  "truthy JUndefined = False"
| "truthy JNull = False"
| "truthy (JBool b) = b"
| "truthy (JNum x) = (x \<noteq> 0)"
| "truthy (JStr s) = (s \<noteq> [])"
| "truthy (JArr xs) = True"
| "truthy (JObj kvs) = True"

definition nullish :: "json \<Rightarrow> bool" where
  "nullish v = (v = JNull \<or> v = JUndefined)"

text \<open>
  Reading a named property of a value that is neither null nor undefined. The hook reads
  only type, data, status, message and request_id: an object yields its own property or
  undefined, every other value yields undefined for these names.
\<close>

fun own :: "json \<Rightarrow> string \<Rightarrow> json" where
  "own (JObj kvs) k = (case map_of kvs k of None \<Rightarrow> JUndefined | Some v \<Rightarrow> v)"
| "own v k = JUndefined"

datatype js_error = TypeError | SyntaxError

text \<open>\<open>v.k\<close> throws a TypeError on null and undefined; \<open>v?.k\<close> yields undefined there.\<close>

definition get :: "json \<Rightarrow> string \<Rightarrow> js_error + json" where
  "get v k = (if nullish v then Inl TypeError else Inr (own v k))"

definition opt_get :: "json \<Rightarrow> string \<Rightarrow> json" where
  "opt_get v k = (if nullish v then JUndefined else own v k)"

subsection \<open>Options, platform and observable actions\<close>

text \<open>
  The owner's callbacks are optional (\<open>onMessage?\<close>, ...): the record says which are given.
\<close>

record options =
  projectId :: string
  has_onMessage :: bool
  has_onStatus :: bool
  has_onConnect :: bool
  has_onDisconnect :: bool
  has_onError :: bool

text \<open>
  What the browser supplies: the environment variable NEXT_PUBLIC_WS_BASE, JSON.parse
  (\<open>None\<close> when it throws a SyntaxError), whether the WebSocket constructor accepts
  an address (it throws otherwise) and, for an accepted address, the \<open>url\<close> attribute
  of the socket constructed from it: the address as the browser serialises it (default
  port dropped, host in lower case, characters percent-encoded).
\<close>

record platform =
  NEXT_PUBLIC_WS_BASE :: "string option"
  JSON_parse :: "string \<Rightarrow> json option"
  WebSocket_accepts :: "string \<Rightarrow> bool"
  WebSocket_url :: "string \<Rightarrow> string"

datatype user_error = ConnectionError string | ConstructionError

text \<open>
  Of a console call the log keeps the first argument, the message; a leading cross-mark
  symbol that some messages carry in the source is left out.
\<close>

datatype effect =
    NewWebSocket nat string
  | WsSend nat string
  | WsSendJSON nat json
  | WsClose nat "nat option"
  | OnMessage json
  | OnStatus string json json
  | OnConnect
  | OnDisconnect
  | OnError user_error
  | ConsoleWarn string
  | ConsoleError string
  | SetTimeout nat nat
  | ClearTimeout nat

datatype readyState = CONNECTING | OPEN | CLOSING | CLOSED

datatype status = Connecting | Connected | Disconnected | Reconnecting

text \<open>
  \<open>sockets\<close> holds the ready state of every WebSocket the hook has constructed, under the
  number of its construction, and \<open>urls\<close> its \<open>url\<close> attribute; \<open>timeouts\<close> holds the pending setTimeout callbacks (handle
  and delay), each of which calls connect(). heartbeatIntervalRef holds, for the armed
  interval timer, the time at which setInterval was called.
\<close>

record controller =
  sockets :: "nat \<rightharpoonup> readyState"
  urls :: "nat \<rightharpoonup> string"
  nextSocket :: nat
  timeouts :: "(nat \<times> nat) list"
  nextTimer :: nat
  wsRef :: "nat option"
  reconnectTimeoutRef :: "nat option"
  connectionAttemptsRef :: nat
  shouldReconnectRef :: bool
  heartbeatIntervalRef :: "int option"
  lastPongRef :: int
  isConnected :: bool
  connectionStatus :: status
  log :: "effect list"

definition maxReconnectAttempts :: nat where
  "maxReconnectAttempts = 5"

definition baseReconnectDelay :: nat where
  "baseReconnectDelay = 2000"

definition heartbeatInterval :: int where
  "heartbeatInterval = 60000"

definition pongTimeout :: int where
  "pongTimeout = 15000"

text \<open>The state at the first render: \<open>now\<close> is Date.now() at that moment.\<close>

definition init :: "int \<Rightarrow> controller" where
  "init now = \<lparr> sockets = Map.empty, urls = Map.empty, nextSocket = 0, timeouts = [], nextTimer = 1,
     wsRef = None, reconnectTimeoutRef = None, connectionAttemptsRef = 0,
     shouldReconnectRef = True, heartbeatIntervalRef = None, lastPongRef = now,
     isConnected = False, connectionStatus = Disconnected, log = [] \<rparr>"

definition emit :: "effect list \<Rightarrow> controller \<Rightarrow> controller" where
  "emit es c = c\<lparr>log := log c @ es\<rparr>"

subsection \<open>The socket methods the hook calls\<close>

text \<open>\<open>wsRef.current?.readyState === WebSocket.OPEN\<close>\<close>

definition current_open :: "controller \<Rightarrow> bool" where
  "current_open c = (case wsRef c of None \<Rightarrow> False | Some i \<Rightarrow> sockets c i = Some OPEN)"

text \<open>
  \<open>ws.close(code)\<close>: a socket that is connecting or open starts closing; one that is
  closing or closed is left alone.
\<close>

definition ws_close :: "nat \<Rightarrow> nat option \<Rightarrow> controller \<Rightarrow> controller" where
  "ws_close i code c =
     emit [WsClose i code]
       (if sockets c i = Some CONNECTING \<or> sockets c i = Some OPEN
        then c\<lparr>sockets := (sockets c)(i \<mapsto> CLOSING)\<rparr> else c)"

definition clearTimeout :: "nat \<Rightarrow> controller \<Rightarrow> controller" where
  "clearTimeout h c = emit [ClearTimeout h] (c\<lparr>timeouts := filter (\<lambda>p. fst p \<noteq> h) (timeouts c)\<rparr>)"

subsection \<open>Heartbeat\<close>

definition startHeartbeat :: "int \<Rightarrow> controller \<Rightarrow> controller" where
  "startHeartbeat now c = c\<lparr>heartbeatIntervalRef := Some now\<rparr>"

definition stopHeartbeat :: "controller \<Rightarrow> controller" where
  "stopHeartbeat c = c\<lparr>heartbeatIntervalRef := None\<rparr>"

text \<open>The callback given to setInterval; \<open>now\<close> is Date.now() when it runs.\<close>

definition heartbeat_tick :: "int \<Rightarrow> controller \<Rightarrow> controller" where
  "heartbeat_tick now c =
     (case wsRef c of
        None \<Rightarrow> c
      | Some i \<Rightarrow>
          if sockets c i = Some OPEN then
            (let timeSinceLastPong = now - lastPongRef c in
             if timeSinceLastPong > heartbeatInterval + pongTimeout
             then ws_close i None (emit [ConsoleWarn ''WebSocket heartbeat timeout, reconnecting...''] c)
             else emit [WsSend i ''ping''] c)
          else c)"

subsection \<open>connect and the handlers it installs\<close>

definition fullUrl :: "platform \<Rightarrow> options \<Rightarrow> string" where
  "fullUrl pf opts =
     (case NEXT_PUBLIC_WS_BASE pf of
        None \<Rightarrow> ''ws://localhost:8080''
      | Some b \<Rightarrow> if b = [] then ''ws://localhost:8080'' else b)
     @ ''/api/chat/'' @ projectId opts"

definition connect :: "platform \<Rightarrow> options \<Rightarrow> controller \<Rightarrow> controller" where
  "connect pf opts c =
     (if current_open c then c
      else if \<not> shouldReconnectRef c then c
      else
        let c1 = c\<lparr>connectionStatus :=
                     (if connectionAttemptsRef c = 0 then Connecting else Reconnecting)\<rparr>
        in if WebSocket_accepts pf (fullUrl pf opts)
           then (let i = nextSocket c1 in
                 emit [NewWebSocket i (fullUrl pf opts)]
                   (c1\<lparr>sockets := (sockets c1)(i \<mapsto> CONNECTING),
                       urls := (urls c1)(i \<mapsto> WebSocket_url pf (fullUrl pf opts)),
                       nextSocket := Suc i, wsRef := Some i\<rparr>))
           else emit ([ConsoleError ''Failed to create WebSocket connection:'']
                      @ (if has_onError opts then [OnError ConstructionError] else [])) c1)"

definition onopen :: "options \<Rightarrow> int \<Rightarrow> controller \<Rightarrow> controller" where
  "onopen opts now c =
     emit (if has_onConnect opts then [OnConnect] else [])
       (startHeartbeat now
          (c\<lparr>isConnected := True, connectionStatus := Connected,
             connectionAttemptsRef := 0, lastPongRef := now\<rparr>))"

text \<open>
  The chain of tests on a parsed frame. \<open>data.type\<close> throws when JSON.parse gave null;
  after it, \<open>data\<close> is known not to be null.
\<close>

definition dispatch :: "options \<Rightarrow> json \<Rightarrow> js_error + effect list" where
  "dispatch opts data =
     (case get data ''type'' of
        Inl e \<Rightarrow> Inl e
      | Inr ty \<Rightarrow>
          let d = own data ''data'' in
          if ty = JStr ''message'' \<and> has_onMessage opts \<and> truthy d then Inr [OnMessage d]
          else if ty = JStr ''preview_error'' \<and> has_onMessage opts then Inr [OnMessage data]
          else if ty = JStr ''preview_success'' \<and> has_onMessage opts then Inr [OnMessage data]
          else if (ty = JStr ''project_status'' \<or> ty = JStr ''status'') \<and> has_onStatus opts
          then Inr [OnStatus ''project_status''
                      (if truthy d then d
                       else JObj [(''status'', own data ''status''), (''message'', own data ''message'')])
                      JUndefined]
          else if ty = JStr ''act_start'' \<and> has_onStatus opts
          then Inr [OnStatus ''act_start'' d (opt_get d ''request_id'')]
          else if ty = JStr ''chat_start'' \<and> has_onStatus opts
          then Inr [OnStatus ''chat_start'' d (opt_get d ''request_id'')]
          else if ty = JStr ''act_complete'' \<and> has_onStatus opts
          then Inr [OnStatus ''act_complete'' d (opt_get d ''request_id'')]
          else if ty = JStr ''chat_complete'' \<and> has_onStatus opts
          then Inr [OnStatus ''chat_complete'' d (opt_get d ''request_id'')]
          else Inr [])"

text \<open>\<open>raw\<close> is event.data, \<open>now\<close> is Date.now() when the handler runs.\<close>

definition onmessage :: "platform \<Rightarrow> options \<Rightarrow> string \<Rightarrow> int \<Rightarrow> controller \<Rightarrow> controller" where
  "onmessage pf opts raw now c =
     (if raw = ''pong'' then c\<lparr>lastPongRef := now\<rparr>
      else case JSON_parse pf raw of
             None \<Rightarrow> emit [ConsoleError ''Failed to parse WebSocket message:''] c
           | Some data \<Rightarrow>
               (case dispatch opts data of
                  Inl e \<Rightarrow> emit [ConsoleError ''Failed to parse WebSocket message:''] c
                | Inr es \<Rightarrow> emit es c))"

text \<open>
  The error handler of a socket; \<open>url\<close> is \<open>ws.url\<close>, the \<open>url\<close> attribute of that
  socket, which the error given to the owner names.
\<close>

definition onerror :: "options \<Rightarrow> string \<Rightarrow> controller \<Rightarrow> controller" where
  "onerror opts url c =
     emit ([ConsoleError ''WebSocket error:'', ConsoleError ''WebSocket readyState:'',
            ConsoleError ''WebSocket URL:'']
           @ (if has_onError opts then [OnError (ConnectionError url)] else []))
       (c\<lparr>connectionStatus := Disconnected\<rparr>)"

text \<open>\<open>Math.min(baseReconnectDelay * Math.pow(2, attempts), 30000)\<close>\<close>

definition reconnect_delay :: "nat \<Rightarrow> nat" where
  "reconnect_delay attempts = min (baseReconnectDelay * 2 ^ attempts) 30000"

definition setTimeout_connect :: "nat \<Rightarrow> controller \<Rightarrow> controller" where
  "setTimeout_connect delay c =
     (let h = nextTimer c in
      emit [SetTimeout h delay]
        (c\<lparr>timeouts := timeouts c @ [(h, delay)], nextTimer := Suc h,
           reconnectTimeoutRef := Some h\<rparr>))"

definition onclose :: "options \<Rightarrow> nat \<Rightarrow> controller \<Rightarrow> controller" where
  "onclose opts code c =
     (let c1 = emit (if has_onDisconnect opts then [OnDisconnect] else [])
                 (stopHeartbeat (c\<lparr>isConnected := False, connectionStatus := Disconnected\<rparr>))
      in if shouldReconnectRef c1 \<and> code \<noteq> 1000 then
           (let attempts = connectionAttemptsRef c1 + 1;
                c2 = c1\<lparr>connectionAttemptsRef := attempts\<rparr>
            in if attempts < maxReconnectAttempts
               then setTimeout_connect (reconnect_delay attempts)
                      (c2\<lparr>connectionStatus := Reconnecting\<rparr>)
               else emit [ConsoleError ''Max reconnection attempts reached'']
                      c2\<lparr>connectionStatus := Disconnected\<rparr>)
         else c1)"

subsection \<open>disconnect, sendMessage and the mount effect\<close>

definition disconnect :: "controller \<Rightarrow> controller" where
  "disconnect c =
     (let c1 = c\<lparr>shouldReconnectRef := False\<rparr>;
          c2 = (case reconnectTimeoutRef c1 of
                  None \<Rightarrow> c1
                | Some h \<Rightarrow> (clearTimeout h c1)\<lparr>reconnectTimeoutRef := None\<rparr>);
          c3 = stopHeartbeat c2;
          c4 = (case wsRef c3 of
                  None \<Rightarrow> c3
                | Some i \<Rightarrow> (ws_close i (Some 1000) c3)\<lparr>wsRef := None\<rparr>)
      in c4\<lparr>isConnected := False, connectionStatus := Disconnected\<rparr>)"

definition sendMessage :: "json \<Rightarrow> controller \<Rightarrow> controller" where
  "sendMessage data c =
     (if current_open c
      then (case wsRef c of None \<Rightarrow> c | Some i \<Rightarrow> emit [WsSendJSON i data] c)
      else emit [ConsoleWarn ''WebSocket is not connected''] c)"

definition mount :: "platform \<Rightarrow> options \<Rightarrow> controller \<Rightarrow> controller" where
  "mount pf opts c = connect pf opts (c\<lparr>shouldReconnectRef := True, connectionAttemptsRef := 0\<rparr>)"

subsection \<open>The event loop\<close>

text \<open>
  One event is one callback run to completion. The browser changes a socket's ready state
  before it fires open (to OPEN) and close (to CLOSED); it fires open only on a connecting
  socket, message only on an open one, close only on one not yet closed, error only on
  a socket that was constructed, and a timer callback only while the timer is armed. An event that cannot occur leaves the state as
  it is.
\<close>

datatype event =
    Mount
  | SockOpen nat int
  | SockMessage nat string int
  | SockError nat
  | SockClose nat nat
  | HeartbeatTick int
  | TimeoutFire nat
  | CallConnect
  | CallDisconnect
  | CallSend json

fun fire :: "platform \<Rightarrow> options \<Rightarrow> event \<Rightarrow> controller \<Rightarrow> controller" where
  "fire pf opts Mount c = mount pf opts c"
| "fire pf opts (SockOpen i now) c =
     (if sockets c i = Some CONNECTING
      then onopen opts now (c\<lparr>sockets := (sockets c)(i \<mapsto> OPEN)\<rparr>) else c)"
| "fire pf opts (SockMessage i raw now) c =
     (if sockets c i = Some OPEN then onmessage pf opts raw now c else c)"
| "fire pf opts (SockError i) c =
     (case urls c i of None \<Rightarrow> c | Some url \<Rightarrow> onerror opts url c)"
| "fire pf opts (SockClose i code) c =
     (if sockets c i \<noteq> None \<and> sockets c i \<noteq> Some CLOSED
      then onclose opts code (c\<lparr>sockets := (sockets c)(i \<mapsto> CLOSED)\<rparr>) else c)"
| "fire pf opts (HeartbeatTick now) c =
     (if heartbeatIntervalRef c \<noteq> None then heartbeat_tick now c else c)"
| "fire pf opts (TimeoutFire h) c =
     (if h \<in> fst ` set (timeouts c)
      then connect pf opts (c\<lparr>timeouts := filter (\<lambda>p. fst p \<noteq> h) (timeouts c)\<rparr>) else c)"
| "fire pf opts CallConnect c = connect pf opts c"
| "fire pf opts CallDisconnect c = disconnect c"
| "fire pf opts (CallSend data) c = sendMessage data c"

fun run :: "platform \<Rightarrow> options \<Rightarrow> event list \<Rightarrow> controller \<Rightarrow> controller" where
  "run pf opts [] c = c"
| "run pf opts (e # es) c = run pf opts es (fire pf opts e c)"

text \<open>What an operation appended to the log: the actions it performed.\<close>

definition emitted :: "controller \<Rightarrow> controller \<Rightarrow> effect list" where
  "emitted c c' = drop (length (log c)) (log c')"

subsection \<open>Concrete sessions used as examples\<close>

definition all_handlers :: options where
  "all_handlers = \<lparr> projectId = ''p1'', has_onMessage = True, has_onStatus = True,
     has_onConnect = True, has_onDisconnect = True, has_onError = True \<rparr>"

definition chat_start_frame :: string where
  "chat_start_frame = ''{\"type\":\"chat_start\",\"data\":{\"x\":1},\"requestId\":\"r1\"}''"

definition chat_start_envelope :: json where
  "chat_start_envelope =
     JObj [(''type'', JStr ''chat_start''), (''data'', JObj [(''x'', JNum 1)]),
           (''requestId'', JStr ''r1'')]"

definition nested_id_frame :: string where
  "nested_id_frame = ''{\"type\":\"act_start\",\"data\":{\"request_id\":\"r7\"}}''"

definition nested_id_envelope :: json where
  "nested_id_envelope =
     JObj [(''type'', JStr ''act_start''), (''data'', JObj [(''request_id'', JStr ''r7'')])]"

definition message_frame :: string where
  "message_frame = ''{\"type\":\"message\",\"data\":{\"id\":\"m1\"}}''"

definition message_envelope :: json where
  "message_envelope = JObj [(''type'', JStr ''message''), (''data'', JObj [(''id'', JStr ''m1'')])]"

definition empty_message_frame :: string where
  "empty_message_frame = ''{\"type\":\"message\",\"data\":null}''"

definition empty_message_envelope :: json where
  "empty_message_envelope = JObj [(''type'', JStr ''message''), (''data'', JNull)]"

text \<open>
  A browser whose JSON.parse is given on the frames above (and fails elsewhere), with
  no NEXT_PUBLIC_WS_BASE and a constructor that accepts the address; the address of the
  example session, ws://localhost:8080/api/chat/p1, is in serialised form already, so the
  socket's \<open>url\<close> is that address.
\<close>

definition browser :: platform where
  "browser = \<lparr> NEXT_PUBLIC_WS_BASE = None,
     JSON_parse = (\<lambda>s. if s = chat_start_frame then Some chat_start_envelope
                       else if s = nested_id_frame then Some nested_id_envelope
                       else if s = message_frame then Some message_envelope
                       else if s = empty_message_frame then Some empty_message_envelope
                       else None),
     WebSocket_accepts = (\<lambda>u. True), WebSocket_url = (\<lambda>u. u) \<rparr>"

subsection \<open>Example sessions\<close>

text \<open>The example session, mounted and with its socket opened at time t0.\<close>

definition connected_at :: "int \<Rightarrow> controller" where
  "connected_at t0 = run browser all_handlers [Mount, SockOpen 0 t0] (init t0)"


text \<open>
  Two sessions in which the owner called connect() while a socket was still connecting.
  In the first, sockets 0 and 1 fail and socket 2 opens; in the second, socket 0 fails and
  socket 1 opens while the retry for socket 0 is pending.
\<close>

definition stale_session :: controller where
  "stale_session = run browser all_handlers
     [Mount, CallConnect, CallConnect, SockClose 0 1006, SockClose 1 1006, SockOpen 2 7] (init 0)"

definition retry_pending_session :: controller where
  "retry_pending_session = run browser all_handlers
     [Mount, CallConnect, SockClose 0 1006, SockOpen 1 7] (init 0)"

subsection \<open>Sockets in flight\<close>

text \<open>
  A socket is unclosed from its construction until its close event. An event is automatic
  when it is not the owner calling connect() and not a re-run of the mount effect. A state
  is orderly when only the newest socket can be unclosed, no retry is pending while a
  socket is unclosed, every pending retry is the one reconnectTimeoutRef holds, and socket
  numbers below nextSocket are the ones in use.
\<close>

definition unclosed :: "controller \<Rightarrow> nat \<Rightarrow> bool" where
  "unclosed c j = (sockets c j \<noteq> None \<and> sockets c j \<noteq> Some CLOSED)"

definition automatic :: "event \<Rightarrow> bool" where
  "automatic e = (e \<noteq> CallConnect \<and> e \<noteq> Mount)"

definition orderly :: "controller \<Rightarrow> bool" where
  "orderly c =
     ((\<forall>j. unclosed c j \<longrightarrow> Suc j = nextSocket c \<and> timeouts c = [])
      \<and> (\<forall>p\<in>set (timeouts c). reconnectTimeoutRef c = Some (fst p))
      \<and> (\<forall>j. sockets c j \<noteq> None \<longrightarrow> j < nextSocket c))"

text \<open>A list of actions is quiet when it constructs no socket and arms no retry.\<close>

definition quiet :: "effect list \<Rightarrow> bool" where
  "quiet es = ((\<forall>j u. NewWebSocket j u \<notin> set es) \<and> (\<forall>h d. SetTimeout h d \<notin> set es))"

subsection \<open>Consecutive failures\<close>

text \<open>
  A run of failed connections: socket k closes with the given code, then the retry timer
  with handle k + 1 fires, if it is armed. \<open>retrying k\<close> describes the session after k
  failures in a row since the mount effect: socket k is connecting, k attempts counted,
  nothing pending, and so far no call of the error callback and no exhaustion message.
\<close>

fun failure_run :: "nat \<Rightarrow> nat list \<Rightarrow> event list" where
  "failure_run k [] = []"
| "failure_run k (code # codes) =
     SockClose k code # TimeoutFire (Suc k) # failure_run (Suc k) codes"

fun is_user_error :: "effect \<Rightarrow> bool" where
  "is_user_error (OnError x) = True"
| "is_user_error e = False"

definition retrying :: "nat \<Rightarrow> controller \<Rightarrow> bool" where
  "retrying k s =
     (wsRef s = Some k \<and> sockets s k = Some CONNECTING \<and> nextSocket s = Suc k
      \<and> connectionAttemptsRef s = k \<and> shouldReconnectRef s \<and> timeouts s = []
      \<and> nextTimer s = Suc k \<and> heartbeatIntervalRef s = None
      \<and> filter is_user_error (log s) = []
      \<and> count_list (log s) (ConsoleError ''Max reconnection attempts reached'') = 0)"

subsection \<open>Owner calls that keep one socket at a time\<close>

text \<open>
  A state is idle when no socket is unclosed and no retry is pending. A call of connect()
  by the owner is allowed when it does nothing (the current socket is OPEN or
  shouldReconnect is cleared) or the state is idle; a re-run of the mount effect is
  allowed when the current socket is OPEN or the state is idle; every other event is
  allowed. A run is permitted when each of its events is allowed in the state it meets.
\<close>

definition idle :: "controller \<Rightarrow> bool" where
  "idle c = (list_all (\<lambda>j. \<not> unclosed c j) [0..<nextSocket c] \<and> timeouts c = [])"

fun allowed :: "event \<Rightarrow> controller \<Rightarrow> bool" where
  "allowed CallConnect c = (current_open c \<or> \<not> shouldReconnectRef c \<or> idle c)"
| "allowed Mount c = (current_open c \<or> idle c)"
| "allowed e c = True"

fun permitted :: "platform \<Rightarrow> options \<Rightarrow> event list \<Rightarrow> controller \<Rightarrow> bool" where
  "permitted pf opts [] c = True"
| "permitted pf opts (e # es) c = (allowed e c \<and> permitted pf opts es (fire pf opts e c))"

subsection \<open>Events that leave an open connection and its heartbeat alone\<close>



section \<open>Basic facts\<close>

lemma not_nullish_typed: "own data k = JStr s \<Longrightarrow> \<not> nullish data"
  by (cases data) (simp_all add: nullish_def)

lemma emit_Nil: "emit [] c = c"
  by (simp add: emit_def)

lemma emitted_emit: "emitted c (emit es c) = es"
  by (simp add: emitted_def emit_def)

lemma reconnect_delay_mono: "m \<le> n \<Longrightarrow> reconnect_delay m \<le> reconnect_delay n"
  by (simp add: reconnect_delay_def baseReconnectDelay_def min_le_iff_disj)

lemma emitted_self: "emitted c c = []"
  by (simp add: emitted_def)

lemma log_emit: "log (emit es c) = log c @ es"
  by (simp add: emit_def)

text \<open>The check-before-send ordering of one tick.\<close>

lemma heartbeat_tick_open:
  assumes "wsRef s = Some j" and "sockets s j = Some OPEN"
  shows "heartbeat_tick now s =
     (if now - lastPongRef s > heartbeatInterval + pongTimeout
      then (emit [ConsoleWarn ''WebSocket heartbeat timeout, reconnecting...'', WsClose j None] s)
              \<lparr>sockets := (sockets s)(j \<mapsto> CLOSING)\<rparr>
      else emit [WsSend j ''ping''] s)"
  using assms by (simp add: heartbeat_tick_def ws_close_def emit_def Let_def)

lemma heartbeat_tick_not_open:
  assumes "wsRef s = Some j" and "sockets s j \<noteq> Some OPEN"
  shows "heartbeat_tick now s = s"
  using assms by (simp add: heartbeat_tick_def)

lemma onopen_fields:
  "lastPongRef (onopen opts now c) = now"
  "heartbeatIntervalRef (onopen opts now c) = Some now"
  "sockets (onopen opts now c) = sockets c"
  "wsRef (onopen opts now c) = wsRef c"
  by (simp_all add: onopen_def emit_def startHeartbeat_def)

lemma dispatch_shape:
  "case dispatch opts data of
     Inl e \<Rightarrow> True
   | Inr es \<Rightarrow> (\<forall>x. OnError x \<notin> set es) \<and> (\<forall>j code. WsClose j code \<notin> set es)
                \<and> (\<forall>j u. NewWebSocket j u \<notin> set es) \<and> (\<forall>h d. SetTimeout h d \<notin> set es)"
  by (cases "get data ''type''") (simp_all add: dispatch_def Let_def)

text \<open>What one message does: it sets the timestamp (pong) or only appends to the log.\<close>

lemma onmessage_pong: "onmessage pf opts ''pong'' now c = c\<lparr>lastPongRef := now\<rparr>"
  by (simp add: onmessage_def)

lemma onmessage_other:
  assumes "raw \<noteq> ''pong''"
  shows "\<exists>es. onmessage pf opts raw now c = emit es c \<and> (\<forall>x. OnError x \<notin> set es)
            \<and> (\<forall>j code. WsClose j code \<notin> set es) \<and> (\<forall>j u. NewWebSocket j u \<notin> set es)
            \<and> (\<forall>h d. SetTimeout h d \<notin> set es)"
proof (cases "JSON_parse pf raw")
  case None
  with assms have "onmessage pf opts raw now c = emit [ConsoleError ''Failed to parse WebSocket message:''] c"
    by (simp add: onmessage_def)
  then show ?thesis
    by (intro exI [of _ "[ConsoleError ''Failed to parse WebSocket message:'']"]) simp
next
  case (Some data)
  show ?thesis
  proof (cases "dispatch opts data")
    case (Inl e)
    with Some assms have "onmessage pf opts raw now c = emit [ConsoleError ''Failed to parse WebSocket message:''] c"
      by (simp add: onmessage_def)
    then show ?thesis
      by (intro exI [of _ "[ConsoleError ''Failed to parse WebSocket message:'']"]) simp
  next
    case (Inr es)
    with dispatch_shape [of opts data]
    have "(\<forall>x. OnError x \<notin> set es) \<and> (\<forall>j code. WsClose j code \<notin> set es)
            \<and> (\<forall>j u. NewWebSocket j u \<notin> set es) \<and> (\<forall>h d. SetTimeout h d \<notin> set es)"
      by simp
    moreover from Inr Some assms have "onmessage pf opts raw now c = emit es c"
      by (simp add: onmessage_def)
    ultimately show ?thesis
      by (intro exI [of _ es]) simp
  qed
qed

lemma emit_fields:
  "sockets (emit es c) = sockets c" "wsRef (emit es c) = wsRef c"
  "lastPongRef (emit es c) = lastPongRef c" "timeouts (emit es c) = timeouts c"
  "heartbeatIntervalRef (emit es c) = heartbeatIntervalRef c"
  "shouldReconnectRef (emit es c) = shouldReconnectRef c"
  "reconnectTimeoutRef (emit es c) = reconnectTimeoutRef c"
  "nextSocket (emit es c) = nextSocket c" "nextTimer (emit es c) = nextTimer c"
  "connectionAttemptsRef (emit es c) = connectionAttemptsRef c"
  "isConnected (emit es c) = isConnected c" "connectionStatus (emit es c) = connectionStatus c"
  by (simp_all add: emit_def)


lemma emitted_append: "log c' = log c @ es \<Longrightarrow> emitted c c' = es"
  by (simp add: emitted_def)

text \<open>What each callback appends to the log.\<close>

lemma log_connect:
  "log (connect pf opts c) = log c @
     (if current_open c \<or> \<not> shouldReconnectRef c then []
      else if WebSocket_accepts pf (fullUrl pf opts) then [NewWebSocket (nextSocket c) (fullUrl pf opts)]
      else [ConsoleError ''Failed to create WebSocket connection:'']
           @ (if has_onError opts then [OnError ConstructionError] else []))"
  by (simp add: connect_def Let_def emit_def)

lemma log_onopen: "log (onopen opts now c) = log c @ (if has_onConnect opts then [OnConnect] else [])"
  by (simp add: onopen_def emit_def startHeartbeat_def)

lemma log_onerror:
  "log (onerror opts url c) = log c @
     [ConsoleError ''WebSocket error:'', ConsoleError ''WebSocket readyState:'',
      ConsoleError ''WebSocket URL:'']
     @ (if has_onError opts then [OnError (ConnectionError url)] else [])"
  by (simp add: onerror_def emit_def)

lemma log_onclose:
  "log (onclose opts code c) = log c @ (if has_onDisconnect opts then [OnDisconnect] else [])
     @ (if shouldReconnectRef c \<and> code \<noteq> 1000
        then (if connectionAttemptsRef c + 1 < maxReconnectAttempts
              then [SetTimeout (nextTimer c) (reconnect_delay (connectionAttemptsRef c + 1))]
              else [ConsoleError ''Max reconnection attempts reached''])
        else [])"
  by (simp add: onclose_def Let_def emit_def stopHeartbeat_def setTimeout_connect_def)

lemma log_tick:
  "log (heartbeat_tick now c) = log c @
     (case wsRef c of None \<Rightarrow> []
      | Some i \<Rightarrow> if sockets c i = Some OPEN
                  then (if now - lastPongRef c > heartbeatInterval + pongTimeout
                        then [ConsoleWarn ''WebSocket heartbeat timeout, reconnecting...'', WsClose i None]
                        else [WsSend i ''ping''])
                  else [])"
  by (simp add: heartbeat_tick_def ws_close_def emit_def Let_def split: option.split)

lemma log_disconnect:
  "log (disconnect c) = log c
     @ (case reconnectTimeoutRef c of None \<Rightarrow> [] | Some h \<Rightarrow> [ClearTimeout h])
     @ (case wsRef c of None \<Rightarrow> [] | Some i \<Rightarrow> [WsClose i (Some 1000)])"
  by (simp add: disconnect_def Let_def ws_close_def clearTimeout_def emit_def stopHeartbeat_def
      split: option.split)

lemma log_sendMessage:
  "log (sendMessage d c) = log c @
     (case wsRef c of None \<Rightarrow> [ConsoleWarn ''WebSocket is not connected'']
      | Some i \<Rightarrow> if sockets c i = Some OPEN then [WsSendJSON i d]
                  else [ConsoleWarn ''WebSocket is not connected''])"
  by (simp add: sendMessage_def current_open_def emit_def split: option.split)










lemma has_onError_all: "has_onError all_handlers"
  by (simp add: all_handlers_def)

lemma connect_no_user_error:
  assumes "WebSocket_accepts pf (fullUrl pf opts)" and "log c0 = log c"
  shows "OnError x \<notin> set (emitted c (connect pf opts c0))"
  using assms by (simp add: emitted_def log_connect)

text \<open>connect() constructs a socket exactly when its two guards and the constructor let it.\<close>

lemma connect_constructs:
  "nextSocket (connect pf opts c) =
     (if \<not> current_open c \<and> shouldReconnectRef c \<and> WebSocket_accepts pf (fullUrl pf opts)
      then Suc (nextSocket c) else nextSocket c)"
  "\<not> current_open c \<and> shouldReconnectRef c \<and> WebSocket_accepts pf (fullUrl pf opts) \<Longrightarrow>
     sockets (connect pf opts c) = (sockets c)(nextSocket c \<mapsto> CONNECTING)
     \<and> wsRef (connect pf opts c) = Some (nextSocket c)"
  "current_open c \<or> \<not> shouldReconnectRef c \<Longrightarrow> connect pf opts c = c"
  by (auto simp add: connect_def Let_def emit_def)

section \<open>Message dispatch\<close>

text \<open>
  C10. A parsed frame whose type is 'message' reaches the content handler exactly when
  the handler is given and the frame's data is truthy, and the handler then receives that
  data; when data is absent, null or otherwise falsy the frame is dropped: no handler is
  called and the state is unchanged.
\<close>

theorem message_envelope_dispatch:
  assumes "raw \<noteq> ''pong''" and "JSON_parse pf raw = Some data"
    and "own data ''type'' = JStr ''message''"
  shows "onmessage pf opts raw now c =
     (if has_onMessage opts \<and> truthy (own data ''data'')
      then emit [OnMessage (own data ''data'')] c else c)"
proof -
  have g: "get data ''type'' = Inr (JStr ''message'')"
    using assms(3) not_nullish_typed [OF assms(3)] by (simp add: get_def)
  have "dispatch opts data =
      Inr (if has_onMessage opts \<and> truthy (own data ''data'') then [OnMessage (own data ''data'')] else [])"
    by (simp add: dispatch_def g Let_def)
  with assms(1,2) show ?thesis
    by (simp add: onmessage_def emit_Nil)
qed

theorem message_envelope_dispatch_witness:
  "message_frame \<noteq> ''pong'' \<and> JSON_parse browser message_frame = Some message_envelope
   \<and> own message_envelope ''type'' = JStr ''message''
   \<and> emitted (init 0) (onmessage browser all_handlers message_frame 5 (init 0))
       = [OnMessage (JObj [(''id'', JStr ''m1'')])]
   \<and> empty_message_frame \<noteq> ''pong''
   \<and> JSON_parse browser empty_message_frame = Some empty_message_envelope
   \<and> own empty_message_envelope ''type'' = JStr ''message''
   \<and> onmessage browser all_handlers empty_message_frame 5 (init 0) = init 0"
proof -
  have e1: "empty_message_frame \<noteq> ''pong''"
    by (simp add: empty_message_frame_def)
  have e2: "JSON_parse browser empty_message_frame = Some empty_message_envelope"
    by (simp add: browser_def empty_message_frame_def chat_start_frame_def nested_id_frame_def
        message_frame_def)
  have e3: "own empty_message_envelope ''type'' = JStr ''message''"
    by (simp add: empty_message_envelope_def)
  have e4: "own empty_message_envelope ''data'' = JNull"
    by (simp add: empty_message_envelope_def)
  have e5: "onmessage browser all_handlers empty_message_frame 5 (init 0) = init 0"
    using message_envelope_dispatch [OF e1 e2 e3, of all_handlers 5 "init 0"]
    by (simp add: e4)
  have 1: "message_frame \<noteq> ''pong''"
    by (simp add: message_frame_def)
  have 2: "JSON_parse browser message_frame = Some message_envelope"
    by (simp add: browser_def message_frame_def chat_start_frame_def nested_id_frame_def)
  have 3: "own message_envelope ''type'' = JStr ''message''"
    by (simp add: message_envelope_def)
  have 4: "own message_envelope ''data'' = JObj [(''id'', JStr ''m1'')]"
    by (simp add: message_envelope_def)
  have 5: "emitted (init 0) (onmessage browser all_handlers message_frame 5 (init 0))
       = [OnMessage (JObj [(''id'', JStr ''m1'')])]"
    using message_envelope_dispatch [OF 1 2 3, of all_handlers 5 "init 0"]
    by (simp add: 4 all_handlers_def emitted_emit)
  show ?thesis
    by (intro conjI 1 2 3 5 e1 e2 e3 e5)
qed

text \<open>
  C2, as stated, fails: for the frame
  \<open>{"type":"chat_start","data":{"x":1},"requestId":"r1"}\<close> the status handler is called
  with event name chat_start and payload \<open>{"x":1}\<close>, but its third argument is undefined,
  not "r1": the hook never reads the top-level requestId.
\<close>

theorem chat_start_requestId_counterexample:
  "JSON_parse browser chat_start_frame = Some chat_start_envelope
   \<and> emitted (init 0) (onmessage browser all_handlers chat_start_frame 5 (init 0))
       = [OnStatus ''chat_start'' (JObj [(''x'', JNum 1)]) JUndefined]
   \<and> OnStatus ''chat_start'' (JObj [(''x'', JNum 1)]) (JStr ''r1'')
       \<notin> set (log (onmessage browser all_handlers chat_start_frame 5 (init 0)))"
proof -
  have 1: "chat_start_frame \<noteq> ''pong''"
    by (simp add: chat_start_frame_def)
  have 2: "JSON_parse browser chat_start_frame = Some chat_start_envelope"
    by (simp add: browser_def)
  have 3: "dispatch all_handlers chat_start_envelope
             = Inr [OnStatus ''chat_start'' (JObj [(''x'', JNum 1)]) JUndefined]"
    by (simp add: dispatch_def get_def nullish_def opt_get_def Let_def chat_start_envelope_def
        all_handlers_def)
  have 4: "onmessage browser all_handlers chat_start_frame 5 (init 0)
             = emit [OnStatus ''chat_start'' (JObj [(''x'', JNum 1)]) JUndefined] (init 0)"
    using 1 by (simp add: onmessage_def 2 3)
  show ?thesis
    unfolding 4 using 2 by (simp add: emitted_emit) (simp add: emit_def init_def)
qed

text \<open>
  C2, amended. For a parsed frame of type act_start, chat_start, act_complete or
  chat_complete, with a status handler given, the hook calls the status handler once, with
  the type as event name, the frame's data as payload and, as correlation identifier, the
  request_id property read from inside that data (undefined when data is null or absent
  or has no such property). It calls nothing else, so the content handler is not invoked.
\<close>

theorem status_envelope_dispatch:
  assumes "raw \<noteq> ''pong''" and "JSON_parse pf raw = Some data"
    and "own data ''type'' = JStr ty"
    and "ty \<in> {''act_start'', ''chat_start'', ''act_complete'', ''chat_complete''}"
    and "has_onStatus opts"
  shows "onmessage pf opts raw now c =
     emit [OnStatus ty (own data ''data'') (opt_get (own data ''data'') ''request_id'')] c"
proof -
  have g: "get data ''type'' = Inr (JStr ty)"
    using assms(3) not_nullish_typed [OF assms(3)] by (simp add: get_def)
  from assms(4) consider "ty = ''act_start''" | "ty = ''chat_start''" | "ty = ''act_complete''"
    | "ty = ''chat_complete''"
    by auto
  then have "dispatch opts data =
      Inr [OnStatus ty (own data ''data'') (opt_get (own data ''data'') ''request_id'')]"
    by cases (simp_all add: dispatch_def g Let_def assms(5))
  with assms(1,2) show ?thesis
    by (simp add: onmessage_def)
qed

theorem status_envelope_dispatch_witness:
  "nested_id_frame \<noteq> ''pong'' \<and> JSON_parse browser nested_id_frame = Some nested_id_envelope
   \<and> own nested_id_envelope ''type'' = JStr ''act_start''
   \<and> has_onStatus all_handlers
   \<and> emitted (init 0) (onmessage browser all_handlers nested_id_frame 5 (init 0))
       = [OnStatus ''act_start'' (JObj [(''request_id'', JStr ''r7'')]) (JStr ''r7'')]"
proof -
  have 1: "nested_id_frame \<noteq> ''pong''"
    by (simp add: nested_id_frame_def)
  have 2: "JSON_parse browser nested_id_frame = Some nested_id_envelope"
    by (simp add: browser_def nested_id_frame_def chat_start_frame_def)
  have 3: "own nested_id_envelope ''type'' = JStr ''act_start''"
    by (simp add: nested_id_envelope_def)
  have 4: "has_onStatus all_handlers"
    by (simp add: all_handlers_def)
  have 5: "own nested_id_envelope ''data'' = JObj [(''request_id'', JStr ''r7'')]"
    by (simp add: nested_id_envelope_def)
  show ?thesis
    using status_envelope_dispatch [OF 1 2 3 _ 4, of 5 "init 0"] 1 2 3 4
    by (simp add: 5 emitted_emit opt_get_def nullish_def)
qed

section \<open>Heartbeat\<close>

text \<open>
  C6. A successful open sets the liveness timestamp to the time of the open handler and
  arms the heartbeat timer at that time. The first tick, one heartbeatInterval later,
  sees an elapsed time of at most heartbeatInterval, below heartbeatInterval + pongTimeout:
  it closes nothing and changes no socket; when the opened socket is the current one it
  sends a ping.
\<close>

theorem first_tick_after_open:
  assumes "sockets c i = Some CONNECTING"
  shows "lastPongRef (fire pf opts (SockOpen i t0) c) = t0
       \<and> heartbeatIntervalRef (fire pf opts (SockOpen i t0) c) = Some t0
       \<and> (t0 + heartbeatInterval) - lastPongRef (fire pf opts (SockOpen i t0) c) \<le> heartbeatInterval
       \<and> heartbeatInterval < heartbeatInterval + pongTimeout
       \<and> sockets (fire pf opts (HeartbeatTick (t0 + heartbeatInterval)) (fire pf opts (SockOpen i t0) c))
           = sockets (fire pf opts (SockOpen i t0) c)
       \<and> (\<forall>j code. WsClose j code \<notin> set (emitted (fire pf opts (SockOpen i t0) c)
            (fire pf opts (HeartbeatTick (t0 + heartbeatInterval)) (fire pf opts (SockOpen i t0) c))))
       \<and> (wsRef c = Some i \<longrightarrow>
            emitted (fire pf opts (SockOpen i t0) c)
              (fire pf opts (HeartbeatTick (t0 + heartbeatInterval)) (fire pf opts (SockOpen i t0) c))
            = [WsSend i ''ping''])"
proof -
  define c1 where "c1 = fire pf opts (SockOpen i t0) c"
  have c1: "c1 = onopen opts t0 (c\<lparr>sockets := (sockets c)(i \<mapsto> OPEN)\<rparr>)"
    using assms by (simp add: c1_def)
  have f: "lastPongRef c1 = t0" "heartbeatIntervalRef c1 = Some t0"
    "sockets c1 = (sockets c)(i \<mapsto> OPEN)" "wsRef c1 = wsRef c"
    by (simp_all add: c1 onopen_fields)
  have fresh: "\<not> (t0 + heartbeatInterval - lastPongRef c1 > heartbeatInterval + pongTimeout)"
    by (simp add: f pongTimeout_def)
  have tick: "fire pf opts (HeartbeatTick (t0 + heartbeatInterval)) c1
        = heartbeat_tick (t0 + heartbeatInterval) c1"
    by (simp add: f)
  have cases: "heartbeat_tick (t0 + heartbeatInterval) c1 = c1
      \<or> (\<exists>j. wsRef c1 = Some j \<and> sockets c1 j = Some OPEN
            \<and> heartbeat_tick (t0 + heartbeatInterval) c1 = emit [WsSend j ''ping''] c1)"
  proof (cases "wsRef c1")
    case None
    then show ?thesis by (simp add: heartbeat_tick_def)
  next
    case (Some j)
    show ?thesis
    proof (cases "sockets c1 j = Some OPEN")
      case True
      with Some fresh show ?thesis
        by (simp add: heartbeat_tick_open)
    next
      case False
      with Some show ?thesis
        by (simp add: heartbeat_tick_not_open)
    qed
  qed
  have noclose: "\<forall>j code. WsClose j code \<notin> set (emitted c1 (heartbeat_tick (t0 + heartbeatInterval) c1))"
    using cases by (auto simp add: emitted_self emitted_emit)
  have same: "sockets (heartbeat_tick (t0 + heartbeatInterval) c1) = sockets c1"
    using cases by (auto simp add: emit_def)
  have ping: "wsRef c = Some i \<longrightarrow>
      emitted c1 (heartbeat_tick (t0 + heartbeatInterval) c1) = [WsSend i ''ping'']"
    using fresh by (simp add: heartbeat_tick_open f emitted_emit)
  show ?thesis
    unfolding c1_def [symmetric] tick
    using f(1,2) noclose same ping by (simp add: pongTimeout_def)
qed

theorem first_tick_after_open_witness:
  "sockets (fire browser all_handlers Mount (init 7)) 0 = Some CONNECTING
   \<and> wsRef (fire browser all_handlers Mount (init 7)) = Some 0
   \<and> lastPongRef (connected_at 7) = 7
   \<and> emitted (connected_at 7) (fire browser all_handlers (HeartbeatTick (7 + heartbeatInterval)) (connected_at 7))
       = [WsSend 0 ''ping'']"
proof -
  have m: "sockets (fire browser all_handlers Mount (init 7)) 0 = Some CONNECTING"
    "wsRef (fire browser all_handlers Mount (init 7)) = Some 0"
    by (simp_all add: mount_def connect_def current_open_def init_def browser_def emit_def Let_def)
  have c: "connected_at 7 = fire browser all_handlers (SockOpen 0 7) (fire browser all_handlers Mount (init 7))"
    by (simp add: connected_at_def)
  show ?thesis
    unfolding c
    using first_tick_after_open [OF m(1), of browser all_handlers 7] m
    by (simp del: fire.simps)
qed








section \<open>Transport errors\<close>

lemma connected_at_url: "urls (connected_at 7) 0 = Some ''ws://localhost:8080/api/chat/p1''"
  by (simp add: connected_at_def mount_def connect_def current_open_def init_def browser_def
      emit_def Let_def onopen_def startHeartbeat_def fullUrl_def all_handlers_def)

lemma connected_at_error:
  "fire browser all_handlers (SockError 0) (connected_at 7)
     = onerror all_handlers ''ws://localhost:8080/api/chat/p1'' (connected_at 7)"
  by (simp add: connected_at_url)

text \<open>
  C8, as stated, fails: on a connected session the error handler sets the exposed
  connection status to disconnected and calls the owner's error callback.
\<close>

theorem transport_error_counterexample:
  "connectionStatus (connected_at 7) = Connected
   \<and> connectionStatus (fire browser all_handlers (SockError 0) (connected_at 7)) = Disconnected
   \<and> emitted (connected_at 7) (fire browser all_handlers (SockError 0) (connected_at 7))
       = [ConsoleError ''WebSocket error:'', ConsoleError ''WebSocket readyState:'',
          ConsoleError ''WebSocket URL:'',
          OnError (ConnectionError ''ws://localhost:8080/api/chat/p1'')]"
proof -
  have c: "connectionStatus (connected_at 7) = Connected"
    by (simp add: connected_at_def mount_def connect_def current_open_def init_def browser_def
        emit_def Let_def onopen_def startHeartbeat_def)
  have s: "connectionStatus (onerror all_handlers ''ws://localhost:8080/api/chat/p1'' (connected_at 7))
        = Disconnected"
    by (simp add: onerror_def emit_def)
  show ?thesis
    unfolding connected_at_error by (simp add: c s emitted_def log_onerror has_onError_all)
qed

text \<open>
  C8, amended. On a transport error event of a socket the hook logs the error, the ready
  state and the address, sets the exposed connection status to disconnected and, when an
  error callback is given, calls it with a connection error naming the socket's url (the
  address handed to the constructor, as the browser serialised it). It does not close the
  socket and leaves the socket table, the current socket, the timers, the attempt counter,
  shouldReconnect and isConnected as they are. The error callback is called by this handler
  and by connect() when the WebSocket constructor throws, and by no other event: used-up
  reconnection attempts are not reported through it.
\<close>

theorem transport_error_effects:
  "sockets (onerror opts url c) = sockets c
   \<and> urls (onerror opts url c) = urls c
   \<and> wsRef (onerror opts url c) = wsRef c
   \<and> timeouts (onerror opts url c) = timeouts c
   \<and> reconnectTimeoutRef (onerror opts url c) = reconnectTimeoutRef c
   \<and> heartbeatIntervalRef (onerror opts url c) = heartbeatIntervalRef c
   \<and> connectionAttemptsRef (onerror opts url c) = connectionAttemptsRef c
   \<and> shouldReconnectRef (onerror opts url c) = shouldReconnectRef c
   \<and> isConnected (onerror opts url c) = isConnected c
   \<and> connectionStatus (onerror opts url c) = Disconnected
   \<and> emitted c (onerror opts url c)
       = [ConsoleError ''WebSocket error:'', ConsoleError ''WebSocket readyState:'',
          ConsoleError ''WebSocket URL:'']
         @ (if has_onError opts then [OnError (ConnectionError url)] else [])
   \<and> (urls c i = Some url \<longrightarrow> fire pf opts (SockError i) c = onerror opts url c)
   \<and> (\<not> current_open c \<and> shouldReconnectRef c \<and> WebSocket_accepts pf (fullUrl pf opts) \<longrightarrow>
        urls (connect pf opts c) (nextSocket c) = Some (WebSocket_url pf (fullUrl pf opts)))
   \<and> (OnError x \<in> set (emitted c (fire pf opts e c)) \<longrightarrow>
        (\<exists>j. e = SockError j)
        \<or> (\<not> WebSocket_accepts pf (fullUrl pf opts)
            \<and> (e = Mount \<or> e = CallConnect \<or> (\<exists>h. e = TimeoutFire h))))"
proof -
  have fields: "sockets (onerror opts url c) = sockets c
   \<and> urls (onerror opts url c) = urls c
   \<and> wsRef (onerror opts url c) = wsRef c
   \<and> timeouts (onerror opts url c) = timeouts c
   \<and> reconnectTimeoutRef (onerror opts url c) = reconnectTimeoutRef c
   \<and> heartbeatIntervalRef (onerror opts url c) = heartbeatIntervalRef c
   \<and> connectionAttemptsRef (onerror opts url c) = connectionAttemptsRef c
   \<and> shouldReconnectRef (onerror opts url c) = shouldReconnectRef c
   \<and> isConnected (onerror opts url c) = isConnected c
   \<and> connectionStatus (onerror opts url c) = Disconnected"
    by (simp add: onerror_def emit_def)
  have out: "emitted c (onerror opts url c)
       = [ConsoleError ''WebSocket error:'', ConsoleError ''WebSocket readyState:'',
          ConsoleError ''WebSocket URL:'']
         @ (if has_onError opts then [OnError (ConnectionError url)] else [])"
    by (rule emitted_append) (simp add: log_onerror)
  have ev: "urls c i = Some url \<longrightarrow> fire pf opts (SockError i) c = onerror opts url c"
    by simp
  have ctor: "\<not> current_open c \<and> shouldReconnectRef c \<and> WebSocket_accepts pf (fullUrl pf opts) \<longrightarrow>
        urls (connect pf opts c) (nextSocket c) = Some (WebSocket_url pf (fullUrl pf opts))"
    by (simp add: connect_def Let_def emit_def)
  have only: "(\<exists>j. e = SockError j)
        \<or> (\<not> WebSocket_accepts pf (fullUrl pf opts)
            \<and> (e = Mount \<or> e = CallConnect \<or> (\<exists>h. e = TimeoutFire h)))"
    if o: "OnError x \<in> set (emitted c (fire pf opts e c))"
  proof (cases e)
    case Mount
    with o connect_no_user_error [of pf opts "c\<lparr>shouldReconnectRef := True, connectionAttemptsRef := 0\<rparr>" c x]
    show ?thesis
      by (auto simp add: mount_def)
  next
    case (SockOpen j t)
    with o show ?thesis
      by (simp add: emitted_def log_onopen emitted_self split: if_splits)
  next
    case (SockMessage j raw t)
    show ?thesis
    proof (cases "raw = ''pong''")
      case True
      with o SockMessage show ?thesis
        by (simp add: emitted_def onmessage_pong split: if_splits)
    next
      case False
      from onmessage_other [OF False, of pf opts t c] obtain es
        where "onmessage pf opts raw t c = emit es c" "\<forall>x. OnError x \<notin> set es"
        by blast
      with o SockMessage show ?thesis
        by (simp add: emitted_emit emitted_self split: if_splits)
    qed
  next
    case (SockError j)
    then show ?thesis
      by simp
  next
    case (SockClose j code)
    with o show ?thesis
      by (simp add: emitted_def log_onclose split: if_splits)
  next
    case (HeartbeatTick t)
    with o show ?thesis
      by (simp add: emitted_def log_tick split: if_splits option.splits)
  next
    case (TimeoutFire h)
    with o connect_no_user_error [of pf opts "c\<lparr>timeouts := filter (\<lambda>p. fst p \<noteq> h) (timeouts c)\<rparr>" c x]
    show ?thesis
      by (auto simp add: emitted_self split: if_splits)
  next
    case CallConnect
    with o connect_no_user_error [of pf opts c c x]
    show ?thesis
      by auto
  next
    case CallDisconnect
    with o show ?thesis
      by (simp add: emitted_def log_disconnect split: option.splits)
  next
    case (CallSend d)
    with o show ?thesis
      by (simp add: emitted_def log_sendMessage split: if_splits option.splits)
  qed
  from fields out ev ctor only show ?thesis
    by blast
qed

theorem transport_error_effects_witness:
  "urls (connected_at 7) 0 = Some ''ws://localhost:8080/api/chat/p1''
   \<and> fire browser all_handlers (SockError 0) (connected_at 7)
       = onerror all_handlers ''ws://localhost:8080/api/chat/p1'' (connected_at 7)
   \<and> OnError (ConnectionError ''ws://localhost:8080/api/chat/p1'')
     \<in> set (emitted (connected_at 7) (fire browser all_handlers (SockError 0) (connected_at 7)))
   \<and> (\<exists>j. SockError 0 = SockError j)
   \<and> connectionStatus (onerror all_handlers ''ws://localhost:8080/api/chat/p1'' (connected_at 7))
       = Disconnected"
proof -
  note th = transport_error_effects [where opts = all_handlers and c = "connected_at 7"
      and url = "''ws://localhost:8080/api/chat/p1''" and i = 0 and pf = browser
      and x = "ConnectionError ''ws://localhost:8080/api/chat/p1''" and e = "SockError 0"]
  from th connected_at_url
  have f: "fire browser all_handlers (SockError 0) (connected_at 7)
       = onerror all_handlers ''ws://localhost:8080/api/chat/p1'' (connected_at 7)"
    by blast
  from th have o: "emitted (connected_at 7)
        (onerror all_handlers ''ws://localhost:8080/api/chat/p1'' (connected_at 7))
       = [ConsoleError ''WebSocket error:'', ConsoleError ''WebSocket readyState:'',
          ConsoleError ''WebSocket URL:'']
         @ (if has_onError all_handlers
            then [OnError (ConnectionError ''ws://localhost:8080/api/chat/p1'')] else [])"
    by blast
  have m: "OnError (ConnectionError ''ws://localhost:8080/api/chat/p1'')
     \<in> set (emitted (connected_at 7) (fire browser all_handlers (SockError 0) (connected_at 7)))"
    unfolding f o by (simp add: has_onError_all)
  from th have s: "connectionStatus (onerror all_handlers ''ws://localhost:8080/api/chat/p1'' (connected_at 7))
       = Disconnected"
    by blast
  show ?thesis
    using connected_at_url f m s by blast
qed

section \<open>One socket at a time\<close>

lemma orderlyI:
  assumes "\<And>j. unclosed c j \<Longrightarrow> Suc j = nextSocket c"
    and "\<And>j. unclosed c j \<Longrightarrow> timeouts c = []"
    and "\<And>p. p \<in> set (timeouts c) \<Longrightarrow> reconnectTimeoutRef c = Some (fst p)"
    and "\<And>j. sockets c j \<noteq> None \<Longrightarrow> j < nextSocket c"
  shows "orderly c"
  using assms unfolding orderly_def by blast

lemma orderly_last: "orderly c \<Longrightarrow> unclosed c j \<Longrightarrow> Suc j = nextSocket c"
  unfolding orderly_def by blast

lemma orderly_idle: "orderly c \<Longrightarrow> unclosed c j \<Longrightarrow> timeouts c = []"
  unfolding orderly_def by blast

lemma orderly_ref: "orderly c \<Longrightarrow> p \<in> set (timeouts c) \<Longrightarrow> reconnectTimeoutRef c = Some (fst p)"
  unfolding orderly_def by blast

lemma orderly_dom: "orderly c \<Longrightarrow> sockets c j \<noteq> None \<Longrightarrow> j < nextSocket c"
  unfolding orderly_def by blast

lemma orderly_init: "orderly (init t)"
  by (simp add: orderly_def unclosed_def init_def)

lemma orderly_cong:
  assumes "orderly c" and "sockets c' = sockets c" and "nextSocket c' = nextSocket c"
    and "timeouts c' = timeouts c" and "reconnectTimeoutRef c' = reconnectTimeoutRef c"
  shows "orderly c'"
  using assms by (simp add: orderly_def unclosed_def)

lemma unclosed_same: "sockets c' = sockets c \<Longrightarrow> unclosed c' j = unclosed c j"
  by (simp add: unclosed_def)

lemma unclosed_upd:
  "sockets c' = (sockets c)(i \<mapsto> st) \<Longrightarrow>
     unclosed c' j = (if j = i then st \<noteq> CLOSED else unclosed c j)"
  by (simp add: unclosed_def)

lemma dom_upd:
  "sockets c' = (sockets c)(i \<mapsto> st) \<Longrightarrow>
     (sockets c' j \<noteq> None) = (j = i \<or> sockets c j \<noteq> None)"
  by simp

lemma filter_ref:
  assumes "\<And>p. p \<in> set ts \<Longrightarrow> r = Some (fst p)" and "h \<in> fst ` set ts"
  shows "filter (\<lambda>p. fst p \<noteq> h) ts = []"
proof -
  from assms(2) obtain q where "q \<in> set ts" "fst q = h"
    by auto
  with assms(1) have "r = Some h"
    by auto
  with assms(1) have "\<forall>p\<in>set ts. fst p = h"
    by auto
  then show ?thesis
    by (simp add: filter_empty_conv)
qed

text \<open>connect either does nothing or constructs the next socket and makes it current.\<close>

lemma connect_cases:
  "connect pf opts c = c
   \<or> (sockets (connect pf opts c) = sockets c \<and> nextSocket (connect pf opts c) = nextSocket c
       \<and> timeouts (connect pf opts c) = timeouts c
       \<and> reconnectTimeoutRef (connect pf opts c) = reconnectTimeoutRef c)
   \<or> (\<not> current_open c \<and> shouldReconnectRef c
       \<and> sockets (connect pf opts c) = (sockets c)(nextSocket c \<mapsto> CONNECTING)
       \<and> nextSocket (connect pf opts c) = Suc (nextSocket c)
       \<and> wsRef (connect pf opts c) = Some (nextSocket c)
       \<and> timeouts (connect pf opts c) = timeouts c
       \<and> reconnectTimeoutRef (connect pf opts c) = reconnectTimeoutRef c)"
  by (simp add: connect_def Let_def emit_def)

lemma orderly_connect:
  assumes "orderly c" and "\<not> shouldReconnectRef c \<or> (\<forall>j. \<not> unclosed c j) \<and> timeouts c = []"
  shows "orderly (connect pf opts c)"
proof -
  let ?c = "connect pf opts c"
  consider "?c = c"
    | "sockets ?c = sockets c" "nextSocket ?c = nextSocket c" "timeouts ?c = timeouts c"
      "reconnectTimeoutRef ?c = reconnectTimeoutRef c"
    | "shouldReconnectRef c" "sockets ?c = (sockets c)(nextSocket c \<mapsto> CONNECTING)"
      "nextSocket ?c = Suc (nextSocket c)" "timeouts ?c = timeouts c"
    using connect_cases [of pf opts c] by blast
  then show ?thesis
  proof cases
    case 1
    with assms(1) show ?thesis by simp
  next
    case 2
    with assms(1) show ?thesis by (rule orderly_cong)
  next
    case 3
    with assms(2) have quiet: "\<forall>j. \<not> unclosed c j" "timeouts c = []"
      by simp_all
    show ?thesis
    proof (rule orderlyI)
      fix j assume "unclosed ?c j"
      with quiet(1) have "j = nextSocket c"
        by (simp add: unclosed_upd [OF 3(2)] split: if_splits)
      with 3 show "Suc j = nextSocket ?c"
        by simp
      from 3 quiet show "timeouts ?c = []"
        by simp
    next
      fix p assume "p \<in> set (timeouts ?c)"
      with 3 quiet show "reconnectTimeoutRef ?c = Some (fst p)"
        by simp
    next
      fix j assume "sockets ?c j \<noteq> None"
      then have "j = nextSocket c \<or> sockets c j \<noteq> None"
        by (simp only: dom_upd [OF 3(2)])
      with 3(3) orderly_dom [OF assms(1), of j] show "j < nextSocket ?c"
        by auto
    qed
  qed
qed

lemma onopen_frame:
  "sockets (onopen opts now c) = sockets c" "nextSocket (onopen opts now c) = nextSocket c"
  "timeouts (onopen opts now c) = timeouts c"
  "reconnectTimeoutRef (onopen opts now c) = reconnectTimeoutRef c"
  "shouldReconnectRef (onopen opts now c) = shouldReconnectRef c"
  by (simp_all add: onopen_def emit_def startHeartbeat_def)

lemma orderly_socket_state:
  assumes "orderly c" and "unclosed c i" and "st \<noteq> CLOSED"
  shows "orderly (c\<lparr>sockets := (sockets c)(i \<mapsto> st)\<rparr>)"
proof (rule orderlyI)
  fix j assume "unclosed (c\<lparr>sockets := (sockets c)(i \<mapsto> st)\<rparr>) j"
  with assms(2) have u: "unclosed c j"
    by (cases "j = i") (simp_all add: unclosed_upd [of _ c i st])
  from orderly_last [OF assms(1) u] show "Suc j = nextSocket (c\<lparr>sockets := (sockets c)(i \<mapsto> st)\<rparr>)"
    by simp
  from orderly_idle [OF assms(1) u] show "timeouts (c\<lparr>sockets := (sockets c)(i \<mapsto> st)\<rparr>) = []"
    by simp
next
  fix p assume "p \<in> set (timeouts (c\<lparr>sockets := (sockets c)(i \<mapsto> st)\<rparr>))"
  with orderly_ref [OF assms(1), of p]
  show "reconnectTimeoutRef (c\<lparr>sockets := (sockets c)(i \<mapsto> st)\<rparr>) = Some (fst p)"
    by simp
next
  fix j assume "sockets (c\<lparr>sockets := (sockets c)(i \<mapsto> st)\<rparr>) j \<noteq> None"
  with assms(2) have "sockets c j \<noteq> None"
    by (cases "j = i") (simp_all add: unclosed_def)
  with orderly_dom [OF assms(1)] show "j < nextSocket (c\<lparr>sockets := (sockets c)(i \<mapsto> st)\<rparr>)"
    by simp
qed

lemma orderly_onopen:
  assumes "orderly c" and "sockets c i = Some CONNECTING"
  shows "orderly (onopen opts now (c\<lparr>sockets := (sockets c)(i \<mapsto> OPEN)\<rparr>))"
proof -
  from assms(2) have "unclosed c i"
    by (simp add: unclosed_def)
  from orderly_socket_state [OF assms(1) this, of OPEN]
  show ?thesis
    by (rule orderly_cong) (simp_all add: onopen_frame)
qed

lemma orderly_emit: "orderly c \<Longrightarrow> orderly (emit es c)"
  by (simp add: orderly_def unclosed_def emit_def)

lemma orderly_lastPong: "orderly c \<Longrightarrow> orderly (c\<lparr>lastPongRef := t\<rparr>)"
  by (simp add: orderly_def unclosed_def)

lemma orderly_onerror: "orderly c \<Longrightarrow> orderly (onerror opts url c)"
  by (simp add: orderly_def unclosed_def onerror_def emit_def)

lemma onclose_frame:
  "sockets (onclose opts code c) = sockets c" "nextSocket (onclose opts code c) = nextSocket c"
  "shouldReconnectRef (onclose opts code c) = shouldReconnectRef c"
  "wsRef (onclose opts code c) = wsRef c"
  by (simp_all add: onclose_def Let_def emit_def stopHeartbeat_def setTimeout_connect_def)

lemma onclose_timeouts:
  "timeouts (onclose opts code c) = timeouts c
     \<and> reconnectTimeoutRef (onclose opts code c) = reconnectTimeoutRef c
   \<or> shouldReconnectRef c \<and> code \<noteq> 1000
     \<and> timeouts (onclose opts code c)
         = timeouts c @ [(nextTimer c, reconnect_delay (connectionAttemptsRef c + 1))]
     \<and> reconnectTimeoutRef (onclose opts code c) = Some (nextTimer c)"
  by (simp add: onclose_def Let_def emit_def stopHeartbeat_def setTimeout_connect_def)

lemma orderly_onclose:
  assumes "orderly c" and "unclosed c i"
  shows "orderly (onclose opts code (c\<lparr>sockets := (sockets c)(i \<mapsto> CLOSED)\<rparr>))"
proof -
  let ?d = "c\<lparr>sockets := (sockets c)(i \<mapsto> CLOSED)\<rparr>"
  let ?c = "onclose opts code ?d"
  have only: "j = i" if "unclosed c j" for j
    using orderly_last [OF assms(1) that] orderly_last [OF assms(1) assms(2)] by simp
  have sock: "sockets ?c = (sockets c)(i \<mapsto> CLOSED)"
    by (simp add: onclose_frame)
  have none: "\<not> unclosed ?c j" for j
    using only [of j] by (auto simp add: unclosed_upd [OF sock])
  have idle: "timeouts ?d = []"
    using orderly_idle [OF assms] by simp
  show ?thesis
  proof (rule orderlyI)
    fix j assume "unclosed ?c j"
    with none show "Suc j = nextSocket ?c" "timeouts ?c = []"
      by simp_all
  next
    fix p assume "p \<in> set (timeouts ?c)"
    with onclose_timeouts [of opts code ?d] idle show "reconnectTimeoutRef ?c = Some (fst p)"
      by auto
  next
    fix j assume "sockets ?c j \<noteq> None"
    then have "j = i \<or> sockets c j \<noteq> None"
      by (simp only: dom_upd [OF sock])
    with assms(2) have "sockets c j \<noteq> None"
      by (auto simp add: unclosed_def)
    with orderly_dom [OF assms(1)] show "j < nextSocket ?c"
      by (simp add: onclose_frame)
  qed
qed

lemma tick_cases:
  "heartbeat_tick now c = c \<or> (\<exists>es. heartbeat_tick now c = emit es c)
   \<or> (\<exists>i es. sockets c i = Some OPEN
        \<and> heartbeat_tick now c = (emit es c)\<lparr>sockets := (sockets c)(i \<mapsto> CLOSING)\<rparr>)"
proof (cases "wsRef c")
  case None
  then show ?thesis
    by (simp add: heartbeat_tick_def)
next
  case (Some i)
  show ?thesis
  proof (cases "sockets c i = Some OPEN")
    case True
    with Some have "heartbeat_tick now c =
     (if now - lastPongRef c > heartbeatInterval + pongTimeout
      then (emit [ConsoleWarn ''WebSocket heartbeat timeout, reconnecting...'', WsClose i None] c)
              \<lparr>sockets := (sockets c)(i \<mapsto> CLOSING)\<rparr>
      else emit [WsSend i ''ping''] c)"
      by (rule heartbeat_tick_open)
    with True show ?thesis
      by (cases "now - lastPongRef c > heartbeatInterval + pongTimeout") auto
  next
    case False
    with Some show ?thesis
      by (simp add: heartbeat_tick_not_open)
  qed
qed

lemma emit_sockets_commute:
  "(emit es c)\<lparr>sockets := s\<rparr> = emit es (c\<lparr>sockets := s\<rparr>)"
  by (simp add: emit_def)

lemma orderly_tick:
  assumes "orderly c"
  shows "orderly (heartbeat_tick now c)"
proof -
  consider "heartbeat_tick now c = c" | es where "heartbeat_tick now c = emit es c"
    | i es where "sockets c i = Some OPEN"
        "heartbeat_tick now c = (emit es c)\<lparr>sockets := (sockets c)(i \<mapsto> CLOSING)\<rparr>"
    using tick_cases [of now c] by blast
  then show ?thesis
  proof cases
    case 1
    with assms show ?thesis by simp
  next
    case 2
    with assms show ?thesis by (simp add: orderly_emit)
  next
    case 3
    from 3(1) have "unclosed c i"
      by (simp add: unclosed_def)
    from orderly_socket_state [OF assms this, of CLOSING] show ?thesis
      unfolding 3(2) emit_sockets_commute by (simp add: orderly_emit)
  qed
qed

lemma orderly_sendMessage: "orderly c \<Longrightarrow> orderly (sendMessage d c)"
  by (simp add: orderly_def unclosed_def sendMessage_def emit_def split: option.split)

lemma disconnect_frame:
  "\<not> shouldReconnectRef (disconnect c)" "reconnectTimeoutRef (disconnect c) = None"
  "heartbeatIntervalRef (disconnect c) = None" "wsRef (disconnect c) = None"
  "nextSocket (disconnect c) = nextSocket c"
  "\<not> isConnected (disconnect c)" "connectionStatus (disconnect c) = Disconnected"
  "timeouts (disconnect c) =
     (case reconnectTimeoutRef c of None \<Rightarrow> timeouts c
      | Some h \<Rightarrow> filter (\<lambda>p. fst p \<noteq> h) (timeouts c))"
  by (simp_all add: disconnect_def Let_def ws_close_def clearTimeout_def emit_def stopHeartbeat_def
      split: option.split)

lemma disconnect_sockets:
  "sockets (disconnect c) = sockets c
   \<or> (\<exists>i. wsRef c = Some i \<and> unclosed c i \<and> sockets (disconnect c) = (sockets c)(i \<mapsto> CLOSING))"
proof (cases "wsRef c")
  case None
  then show ?thesis
    by (simp add: disconnect_def Let_def clearTimeout_def emit_def stopHeartbeat_def
        split: option.split)
next
  case (Some i)
  show ?thesis
  proof (cases "sockets c i = Some CONNECTING \<or> sockets c i = Some OPEN")
    case True
    then have "unclosed c i"
      by (auto simp add: unclosed_def)
    moreover from True Some have "sockets (disconnect c) = (sockets c)(i \<mapsto> CLOSING)"
      by (auto simp add: disconnect_def Let_def ws_close_def clearTimeout_def emit_def stopHeartbeat_def
          split: option.split)
    ultimately show ?thesis
      using Some by blast
  next
    case False
    with Some have "sockets (disconnect c) = sockets c"
      by (auto simp add: disconnect_def Let_def ws_close_def clearTimeout_def emit_def stopHeartbeat_def
          split: option.split)
    then show ?thesis
      by simp
  qed
qed

lemma disconnect_unclosed:
  assumes "unclosed (disconnect c) j"
  shows "unclosed c j"
proof -
  consider "sockets (disconnect c) = sockets c"
    | i where "unclosed c i" "sockets (disconnect c) = (sockets c)(i \<mapsto> CLOSING)"
    using disconnect_sockets [of c] by blast
  then show ?thesis
  proof cases
    case 1
    from assms show ?thesis
      by (simp only: unclosed_same [OF 1])
  next
    case 2
    from assms 2(1) show ?thesis
      by (cases "j = i") (simp_all add: unclosed_upd [OF 2(2)])
  qed
qed

lemma disconnect_dom:
  assumes "sockets (disconnect c) j \<noteq> None"
  shows "sockets c j \<noteq> None"
proof -
  consider "sockets (disconnect c) = sockets c"
    | i where "unclosed c i" "sockets (disconnect c) = (sockets c)(i \<mapsto> CLOSING)"
    using disconnect_sockets [of c] by blast
  then show ?thesis
  proof cases
    case 1
    with assms show ?thesis
      by simp
  next
    case 2
    from assms have "j = i \<or> sockets c j \<noteq> None"
      by (simp only: dom_upd [OF 2(2)])
    with 2(1) show ?thesis
      by (auto simp add: unclosed_def)
  qed
qed

lemma disconnect_cancels:
  assumes "orderly c"
  shows "timeouts (disconnect c) = []"
proof (cases "reconnectTimeoutRef c")
  case None
  with orderly_ref [OF assms] have "timeouts c = []"
    by (cases "timeouts c") auto
  with None show ?thesis
    by (simp add: disconnect_frame)
next
  case (Some h)
  with orderly_ref [OF assms] have "\<forall>p\<in>set (timeouts c). fst p = h"
    by auto
  with Some show ?thesis
    by (simp add: disconnect_frame filter_empty_conv)
qed

lemma orderly_disconnect:
  assumes "orderly c"
  shows "orderly (disconnect c)"
proof (rule orderlyI)
  fix j assume "unclosed (disconnect c) j"
  then have "unclosed c j"
    by (rule disconnect_unclosed)
  from orderly_last [OF assms this] show "Suc j = nextSocket (disconnect c)"
    by (simp add: disconnect_frame)
  show "timeouts (disconnect c) = []"
    by (rule disconnect_cancels [OF assms])
next
  fix p assume "p \<in> set (timeouts (disconnect c))"
  then show "reconnectTimeoutRef (disconnect c) = Some (fst p)"
    by (simp add: disconnect_cancels [OF assms])
next
  fix j assume "sockets (disconnect c) j \<noteq> None"
  then have "sockets c j \<noteq> None"
    by (rule disconnect_dom)
  from orderly_dom [OF assms this] show "j < nextSocket (disconnect c)"
    by (simp add: disconnect_frame)
qed

lemma orderly_mount: "orderly (fire pf opts Mount (init t))"
proof -
  let ?c = "(init t)\<lparr>shouldReconnectRef := True, connectionAttemptsRef := 0\<rparr>"
  have "orderly ?c"
    by (rule orderly_cong [OF orderly_init]) simp_all
  moreover have "(\<forall>j. \<not> unclosed ?c j) \<and> timeouts ?c = []"
    by (simp add: unclosed_def init_def)
  ultimately show ?thesis
    by (simp add: mount_def orderly_connect)
qed

lemma orderly_fire:
  assumes "orderly c" and "automatic e"
  shows "orderly (fire pf opts e c)"
proof (cases e)
  case Mount
  with assms(2) show ?thesis
    by (simp add: automatic_def)
next
  case (SockOpen i t)
  with assms(1) show ?thesis
    by (simp add: orderly_onopen)
next
  case (SockMessage i raw t)
  show ?thesis
  proof (cases "raw = ''pong''")
    case True
    with SockMessage assms(1) show ?thesis
      by (simp add: onmessage_pong orderly_lastPong)
  next
    case False
    from onmessage_other [OF False, of pf opts t c] obtain es
      where "onmessage pf opts raw t c = emit es c"
      by blast
    with SockMessage assms(1) show ?thesis
      by (simp add: orderly_emit)
  qed
next
  case (SockError i)
  with assms(1) show ?thesis
    by (simp add: orderly_onerror split: option.split)
next
  case (SockClose i code)
  show ?thesis
  proof (cases "unclosed c i")
    case True
    with SockClose orderly_onclose [OF assms(1) True, of opts code] show ?thesis
      by (simp add: unclosed_def)
  next
    case False
    with SockClose assms(1) show ?thesis
      by (auto simp add: unclosed_def)
  qed
next
  case (HeartbeatTick t)
  with assms(1) show ?thesis
    by (simp add: orderly_tick)
next
  case (TimeoutFire h)
  show ?thesis
  proof (cases "h \<in> fst ` set (timeouts c)")
    case True
    let ?d = "c\<lparr>timeouts := filter (\<lambda>p. fst p \<noteq> h) (timeouts c)\<rparr>"
    from True have busy: "timeouts c \<noteq> []"
      by auto
    have gone: "filter (\<lambda>p. fst p \<noteq> h) (timeouts c) = []"
      by (rule filter_ref [OF orderly_ref [OF assms(1)] True])
    have quiet: "\<not> unclosed c j" for j
      using orderly_idle [OF assms(1), of j] busy by blast
    have od: "orderly ?d"
    proof (rule orderlyI)
      fix j assume "unclosed ?d j"
      then have "unclosed c j"
        by (simp add: unclosed_def)
      with quiet show "Suc j = nextSocket ?d" "timeouts ?d = []"
        by simp_all
    next
      fix p assume "p \<in> set (timeouts ?d)"
      with gone show "reconnectTimeoutRef ?d = Some (fst p)"
        by simp
    next
      fix j assume "sockets ?d j \<noteq> None"
      with orderly_dom [OF assms(1), of j] show "j < nextSocket ?d"
        by simp
    qed
    have qd: "(\<forall>j. \<not> unclosed ?d j) \<and> timeouts ?d = []"
      using quiet gone by (simp add: unclosed_def)
    have "orderly (connect pf opts ?d)"
      by (rule orderly_connect [OF od]) (use qd in blast)
    with TimeoutFire True show ?thesis
      by simp
  next
    case False
    with TimeoutFire assms(1) show ?thesis
      by simp
  qed
next
  case CallConnect
  with assms(2) show ?thesis
    by (simp add: automatic_def)
next
  case CallDisconnect
  with assms(1) show ?thesis
    by (simp add: orderly_disconnect)
next
  case (CallSend d)
  with assms(1) show ?thesis
    by (simp add: orderly_sendMessage)
qed

lemma orderly_run:
  assumes "orderly c" and "\<forall>e\<in>set es. automatic e"
  shows "orderly (run pf opts es c)"
  using assms
  by (induction es arbitrary: c) (simp_all add: orderly_fire)

text \<open>
  C7, as stated, fails: connect() only tests whether the current socket is OPEN, so a
  second connect() while the first socket is still connecting constructs a second socket;
  after the mount effect and one call of connect() by the owner two sockets are unclosed.
\<close>

theorem overlapping_sockets_counterexample:
  "sockets (run browser all_handlers [Mount, CallConnect] (init 0)) 0 = Some CONNECTING
   \<and> sockets (run browser all_handlers [Mount, CallConnect] (init 0)) 1 = Some CONNECTING
   \<and> unclosed (run browser all_handlers [Mount, CallConnect] (init 0)) 0
   \<and> unclosed (run browser all_handlers [Mount, CallConnect] (init 0)) 1"
  by (simp add: unclosed_def mount_def connect_def current_open_def init_def browser_def emit_def Let_def)

lemma idle_quiet:
  assumes "orderly c" and "idle c"
  shows "(\<forall>j. \<not> unclosed c j) \<and> timeouts c = []"
proof -
  have "\<not> unclosed c j" for j
  proof
    assume u: "unclosed c j"
    then have "sockets c j \<noteq> None"
      by (simp add: unclosed_def)
    from orderly_dom [OF assms(1) this] have "j \<in> set [0..<nextSocket c]"
      by simp
    with assms(2) u show False
      by (simp add: idle_def list_all_iff)
  qed
  with assms(2) show ?thesis
    by (simp add: idle_def)
qed

lemma orderly_flags:
  "orderly c \<Longrightarrow> orderly (c\<lparr>shouldReconnectRef := b, connectionAttemptsRef := n\<rparr>)"
  by (rule orderly_cong) simp_all

lemma orderly_allowed:
  assumes "orderly c" and "allowed e c"
  shows "orderly (fire pf opts e c)"
proof (cases "automatic e")
  case True
  with assms(1) show ?thesis
    by (rule orderly_fire)
next
  case False
  then consider "e = CallConnect" | "e = Mount"
    by (auto simp add: automatic_def)
  then show ?thesis
  proof cases
    case 1
    with assms(2) consider "current_open c" | "\<not> shouldReconnectRef c" | "idle c"
      by auto
    then have "orderly (connect pf opts c)"
    proof cases
      case 1
      then have "connect pf opts c = c"
        by (simp add: connect_constructs(3))
      with assms(1) show ?thesis
        by simp
    next
      case 2
      then show ?thesis
        by (intro orderly_connect [OF assms(1)]) simp
    next
      case 3
      from idle_quiet [OF assms(1) 3] show ?thesis
        by (intro orderly_connect [OF assms(1)]) blast
    qed
    with 1 show ?thesis
      by simp
  next
    case 2
    let ?d = "c\<lparr>shouldReconnectRef := True, connectionAttemptsRef := 0\<rparr>"
    have od: "orderly ?d"
      by (rule orderly_flags [OF assms(1)])
    from 2 assms(2) consider "current_open c" | "idle c"
      by auto
    then have "orderly (connect pf opts ?d)"
    proof cases
      case 1
      then have "current_open ?d"
        by (simp add: current_open_def split: option.splits)
      then have "connect pf opts ?d = ?d"
        by (simp add: connect_constructs(3))
      with od show ?thesis
        by simp
    next
      case 2
      from idle_quiet [OF assms(1) 2] have "(\<forall>j. \<not> unclosed ?d j) \<and> timeouts ?d = []"
        by (simp add: unclosed_def)
      then show ?thesis
        by (intro orderly_connect [OF od]) blast
    qed
    with 2 show ?thesis
      by (simp add: mount_def)
  qed
qed

lemma orderly_permitted:
  assumes "orderly c" and "permitted pf opts es c"
  shows "orderly (run pf opts es c)"
  using assms
  by (induction es arbitrary: c) (simp_all add: orderly_allowed del: fire.simps)

text \<open>
  C7, amended. connect() does nothing when the current socket is OPEN or shouldReconnect
  is cleared; otherwise (the constructor accepting the address) it constructs one new
  socket and makes it current, whether or not an earlier socket is still connecting or
  closing. At most one socket of the controller is unclosed at any time in every run in
  which the owner calls connect() only when the current socket is OPEN, shouldReconnect
  is cleared, or no socket is unclosed and no retry is pending, and the mount effect runs
  only when the current socket is OPEN or no socket is unclosed and no retry is pending;
  socket events, timer events, disconnect() and sends are not restricted.
\<close>

theorem one_socket_when_permitted:
  assumes "permitted pf opts es (init t)"
  shows "(\<forall>i j. unclosed (run pf opts es (init t)) i
             \<and> unclosed (run pf opts es (init t)) j \<longrightarrow> i = j)
       \<and> (current_open c \<or> \<not> shouldReconnectRef c \<longrightarrow> connect pf opts c = c)
       \<and> (\<not> current_open c \<and> shouldReconnectRef c \<and> WebSocket_accepts pf (fullUrl pf opts) \<longrightarrow>
            sockets (connect pf opts c) = (sockets c)(nextSocket c \<mapsto> CONNECTING)
            \<and> nextSocket (connect pf opts c) = Suc (nextSocket c)
            \<and> wsRef (connect pf opts c) = Some (nextSocket c))"
proof -
  let ?s = "run pf opts es (init t)"
  have o: "orderly ?s"
    by (rule orderly_permitted [OF orderly_init assms])
  have "i = j" if "unclosed ?s i" "unclosed ?s j" for i j
    using orderly_last [OF o that(1)] orderly_last [OF o that(2)] by simp
  then show ?thesis
    using connect_constructs [where pf = pf and opts = opts and c = c] by (simp del: fire.simps)
qed

theorem one_socket_when_permitted_witness:
  "permitted browser all_handlers [Mount, SockClose 0 1000, CallConnect, SockOpen 1 9000] (init 0)
   \<and> unclosed (run browser all_handlers [Mount, SockClose 0 1000, CallConnect, SockOpen 1 9000] (init 0)) 1
   \<and> \<not> unclosed (run browser all_handlers [Mount, SockClose 0 1000, CallConnect, SockOpen 1 9000] (init 0)) 0"
proof -
  let ?es = "[Mount, SockClose 0 1000, CallConnect, SockOpen 1 9000]"
  let ?s = "run browser all_handlers ?es (init 0)"
  define s1 where "s1 = fire browser all_handlers Mount (init 0)"
  define s2 where "s2 = fire browser all_handlers (SockClose 0 1000) s1"
  define s3 where "s3 = fire browser all_handlers CallConnect s2"
  define s4 where "s4 = fire browser all_handlers (SockOpen 1 9000) s3"
  have i0: "idle (init 0)"
    by (simp add: idle_def init_def)
  have f1: "sockets s1 = [0 \<mapsto> CONNECTING]" "nextSocket s1 = 1" "timeouts s1 = []"
    "shouldReconnectRef s1" "wsRef s1 = Some 0"
    by (simp_all add: s1_def mount_def connect_def current_open_def init_def browser_def emit_def Let_def)
  have f2: "sockets s2 = [0 \<mapsto> CLOSED]" "nextSocket s2 = 1" "timeouts s2 = []"
    "shouldReconnectRef s2" "wsRef s2 = Some 0"
    by (simp_all add: s2_def f1 onclose_def Let_def emit_def stopHeartbeat_def)
  have i2: "idle s2"
    by (simp add: idle_def f2 unclosed_def)
  have n2: "\<not> current_open s2"
    by (simp add: current_open_def f2)
  have f3: "sockets s3 = [0 \<mapsto> CLOSED, 1 \<mapsto> CONNECTING]" "nextSocket s3 = 2"
    using n2 f2 by (simp_all add: s3_def connect_def browser_def emit_def Let_def)
  have f4: "sockets s4 = [0 \<mapsto> CLOSED, 1 \<mapsto> OPEN]"
    by (simp add: s4_def f3 onopen_frame)
  have r: "?s = s4"
    by (simp only: run.simps s1_def s2_def s3_def s4_def)
  have p: "permitted browser all_handlers ?es (init 0)"
    using i0 i2 by (simp add: s1_def [symmetric] s2_def [symmetric] del: fire.simps)
  have u: "unclosed ?s 1"
    unfolding r by (simp add: unclosed_def f4)
  from one_socket_when_permitted [OF p, of "init 0"] u
  have "\<not> unclosed ?s 0"
    by (auto simp del: fire.simps run.simps)
  with p u show ?thesis
    by (simp del: run.simps fire.simps permitted.simps)
qed

section \<open>Intentional teardown\<close>

lemma quiet_Nil: "quiet []"
  by (simp add: quiet_def)

lemma quiet_append: "quiet es \<Longrightarrow> quiet fs \<Longrightarrow> quiet (es @ fs)"
  by (simp add: quiet_def)

text \<open>
  Once shouldReconnect is cleared, no event other than a re-run of the mount effect sets
  the flag, arms a retry or constructs a socket; pending retries can only go away.
\<close>

lemma cleared_fire:
  assumes off: "\<not> shouldReconnectRef c" and e: "e \<noteq> Mount"
  shows "\<not> shouldReconnectRef (fire pf opts e c)
       \<and> set (timeouts (fire pf opts e c)) \<subseteq> set (timeouts c)
       \<and> nextSocket (fire pf opts e c) = nextSocket c
       \<and> (\<exists>es. log (fire pf opts e c) = log c @ es \<and> quiet es)"
proof (cases e)
  case Mount
  with e show ?thesis
    by simp
next
  case (SockOpen i t)
  have "quiet (if has_onConnect opts then [OnConnect] else [])"
    by (simp add: quiet_def)
  with SockOpen off show ?thesis
    by (auto simp add: onopen_frame log_onopen intro: quiet_Nil)
next
  case (SockMessage i raw t)
  show ?thesis
  proof (cases "sockets c i = Some OPEN")
    case False
    with SockMessage off show ?thesis
      by (auto intro: quiet_Nil)
  next
    case True
    show ?thesis
    proof (cases "raw = ''pong''")
      case pong: True
      with True SockMessage off show ?thesis
        by (auto simp add: onmessage_pong intro: quiet_Nil)
    next
      case other: False
      from onmessage_other [OF other, of pf opts t c] obtain es
        where m: "onmessage pf opts raw t c = emit es c" and q: "quiet es"
        unfolding quiet_def by blast
      from True SockMessage have "fire pf opts e c = emit es c"
        by (simp add: m)
      with off q show ?thesis
        by (auto simp add: emit_fields log_emit)
    qed
  qed
next
  case (SockError i)
  have "quiet ([ConsoleError ''WebSocket error:'', ConsoleError ''WebSocket readyState:'',
      ConsoleError ''WebSocket URL:'']
     @ (if has_onError opts then [OnError (ConnectionError url)] else []))" for url
    by (simp add: quiet_def)
  moreover have "\<not> shouldReconnectRef (onerror opts url c)" "timeouts (onerror opts url c) = timeouts c"
    "nextSocket (onerror opts url c) = nextSocket c" for url
    using off by (simp_all add: onerror_def emit_def)
  ultimately show ?thesis
    using SockError off by (auto simp add: log_onerror intro: quiet_Nil split: option.split)
next
  case (SockClose i code)
  let ?d = "c\<lparr>sockets := (sockets c)(i \<mapsto> CLOSED)\<rparr>"
  have f: "\<not> shouldReconnectRef (onclose opts code ?d)" "nextSocket (onclose opts code ?d) = nextSocket c"
    using off by (simp_all add: onclose_frame)
  have t: "timeouts (onclose opts code ?d) = timeouts c"
    using onclose_timeouts [of opts code ?d] off by auto
  have l: "log (onclose opts code ?d) = log c @ (if has_onDisconnect opts then [OnDisconnect] else [])"
    using off by (simp add: log_onclose)
  have "quiet (if has_onDisconnect opts then [OnDisconnect] else [])"
    by (simp add: quiet_def)
  with SockClose off f t l show ?thesis
    by (auto intro: quiet_Nil)
next
  case (HeartbeatTick t)
  have f: "\<not> shouldReconnectRef (heartbeat_tick t c)" "timeouts (heartbeat_tick t c) = timeouts c"
    "nextSocket (heartbeat_tick t c) = nextSocket c"
    using off
    by (simp_all add: heartbeat_tick_def ws_close_def emit_def Let_def split: option.split)
  have "\<exists>es. log (heartbeat_tick t c) = log c @ es \<and> quiet es"
    by (simp add: log_tick quiet_def split: option.split)
  with HeartbeatTick off f show ?thesis
    by (auto intro: quiet_Nil)
next
  case (TimeoutFire h)
  let ?d = "c\<lparr>timeouts := filter (\<lambda>p. fst p \<noteq> h) (timeouts c)\<rparr>"
  from off have "connect pf opts ?d = ?d"
    by (simp add: connect_constructs(3))
  with TimeoutFire off show ?thesis
    by (auto intro: quiet_Nil)
next
  case CallConnect
  from off have "connect pf opts c = c"
    by (simp add: connect_constructs(3))
  with CallConnect off show ?thesis
    by (auto intro: quiet_Nil)
next
  case CallDisconnect
  have "\<exists>es. log (disconnect c) = log c @ es \<and> quiet es"
    by (simp add: log_disconnect quiet_def split: option.split)
  moreover have "set (timeouts (disconnect c)) \<subseteq> set (timeouts c)"
    by (auto simp add: disconnect_frame split: option.split)
  ultimately show ?thesis
    using CallDisconnect by (simp add: disconnect_frame)
next
  case (CallSend d)
  have f: "\<not> shouldReconnectRef (sendMessage d c)" "timeouts (sendMessage d c) = timeouts c"
    "nextSocket (sendMessage d c) = nextSocket c"
    using off by (simp_all add: sendMessage_def emit_def split: option.split)
  have "\<exists>es. log (sendMessage d c) = log c @ es \<and> quiet es"
    by (simp add: log_sendMessage quiet_def split: option.split)
  with CallSend f show ?thesis
    by auto
qed

lemma cleared_run:
  assumes "\<not> shouldReconnectRef c" and "Mount \<notin> set es"
  shows "\<not> shouldReconnectRef (run pf opts es c)
       \<and> set (timeouts (run pf opts es c)) \<subseteq> set (timeouts c)
       \<and> nextSocket (run pf opts es c) = nextSocket c
       \<and> (\<exists>fs. log (run pf opts es c) = log c @ fs \<and> quiet fs)"
  using assms
proof (induction es arbitrary: c)
  case Nil
  then show ?case
    by (auto intro: quiet_Nil)
next
  case (Cons e es)
  from Cons.prems have e: "e \<noteq> Mount" and es: "Mount \<notin> set es"
    by auto
  from cleared_fire [OF Cons.prems(1) e, of pf opts]
  obtain fs where s: "\<not> shouldReconnectRef (fire pf opts e c)"
    "set (timeouts (fire pf opts e c)) \<subseteq> set (timeouts c)"
    "nextSocket (fire pf opts e c) = nextSocket c" "log (fire pf opts e c) = log c @ fs" "quiet fs"
    by blast
  from Cons.IH [OF s(1) es]
  obtain gs where r: "\<not> shouldReconnectRef (run pf opts es (fire pf opts e c))"
    "set (timeouts (run pf opts es (fire pf opts e c))) \<subseteq> set (timeouts (fire pf opts e c))"
    "nextSocket (run pf opts es (fire pf opts e c)) = nextSocket (fire pf opts e c)"
    "log (run pf opts es (fire pf opts e c)) = log (fire pf opts e c) @ gs" "quiet gs"
    by blast
  have "log (run pf opts (e # es) c) = log c @ (fs @ gs)"
    using r(4) s(4) by simp
  moreover have "quiet (fs @ gs)"
    by (rule quiet_append [OF s(5) r(5)])
  moreover have "set (timeouts (run pf opts (e # es) c)) \<subseteq> set (timeouts c)"
    using r(2) s(2) by (auto simp del: fire.simps)
  ultimately show ?case
    using r(1,3) s(3) by (auto simp del: fire.simps)
qed

lemmas session_defs = mount_def connect_def current_open_def init_def browser_def emit_def Let_def
  onopen_def startHeartbeat_def onclose_def stopHeartbeat_def setTimeout_connect_def
  maxReconnectAttempts_def reconnect_delay_def baseReconnectDelay_def

lemma stale_session_fields:
  "wsRef stale_session = Some 2" "sockets stale_session 2 = Some OPEN" "isConnected stale_session"
  "connectionStatus stale_session = Connected" "reconnectTimeoutRef stale_session = Some 2"
  "timeouts stale_session = [(1, 4000), (2, 8000)]" "nextSocket stale_session = 3"
  by (simp_all add: stale_session_def session_defs)

lemma retry_pending_session_fields:
  "wsRef retry_pending_session = Some 1" "sockets retry_pending_session 1 = Some OPEN"
  "reconnectTimeoutRef retry_pending_session = Some 1"
  "timeouts retry_pending_session = [(1, 4000)]" "nextSocket retry_pending_session = 2"
  by (simp_all add: retry_pending_session_def session_defs)

text \<open>
  C4, as stated, fails: setTimeout's handle overwrites reconnectTimeoutRef without the
  earlier retry being cancelled, and disconnect() cancels only the retry whose handle the
  ref holds. In a connected session in which two overlapping sockets had failed, retry 1
  is still armed after disconnect(), and its callback calls connect().
\<close>

theorem stale_timer_counterexample:
  "wsRef stale_session = Some 2 \<and> sockets stale_session 2 = Some OPEN \<and> isConnected stale_session
   \<and> connectionStatus stale_session = Connected
   \<and> timeouts (disconnect stale_session) = [(1, 4000)]
   \<and> fire browser all_handlers (TimeoutFire 1) (disconnect stale_session)
       = connect browser all_handlers ((disconnect stale_session)\<lparr>timeouts := []\<rparr>)"
proof -
  have t: "timeouts (disconnect stale_session) = [(1, 4000)]"
    by (simp add: disconnect_frame stale_session_fields)
  show ?thesis
    by (simp add: stale_session_fields t)
qed

text \<open>
  C4, amended. In every state, disconnect() clears shouldReconnect, cancels the retry whose
  handle reconnectTimeoutRef holds and the heartbeat timer, and closes an open current
  socket with code 1000. Whatever happens afterwards, short of the mount effect running
  again (socket events with any close code, timer events, calls of connect(), disconnect()
  or send), shouldReconnect stays cleared, every call of connect() returns without effect,
  no retry is armed, no socket is constructed, and pending retries can only go away. When
  the controller was reached by a permitted run, disconnect() leaves no retry pending, so
  the timer callback that calls connect() never runs. And a close event with code 1000 arms
  no retry in any state, whatever shouldReconnect holds.
\<close>

theorem disconnect_no_reconnect:
  assumes "Mount \<notin> set later"
  shows "\<not> shouldReconnectRef (disconnect c) \<and> reconnectTimeoutRef (disconnect c) = None
       \<and> heartbeatIntervalRef (disconnect c) = None \<and> wsRef (disconnect c) = None
       \<and> (reconnectTimeoutRef c = Some h \<longrightarrow>
            timeouts (disconnect c) = filter (\<lambda>p. fst p \<noteq> h) (timeouts c)
            \<and> h \<notin> fst ` set (timeouts (disconnect c))
            \<and> ClearTimeout h \<in> set (emitted c (disconnect c)))
       \<and> (wsRef c = Some i \<and> sockets c i = Some OPEN \<longrightarrow>
            sockets (disconnect c) i = Some CLOSING
            \<and> WsClose i (Some 1000) \<in> set (emitted c (disconnect c)))
       \<and> \<not> shouldReconnectRef (run pf opts later (disconnect c))
       \<and> connect pf opts (run pf opts later (disconnect c)) = run pf opts later (disconnect c)
       \<and> set (timeouts (run pf opts later (disconnect c))) \<subseteq> set (timeouts (disconnect c))
       \<and> nextSocket (run pf opts later (disconnect c)) = nextSocket c
       \<and> (\<forall>j u. NewWebSocket j u \<notin> set (emitted c (run pf opts later (disconnect c))))
       \<and> (\<forall>k d. SetTimeout k d \<notin> set (emitted c (run pf opts later (disconnect c))))
       \<and> (permitted pf opts es (init t) \<and> c = run pf opts es (init t) \<longrightarrow>
            timeouts (run pf opts later (disconnect c)) = [])
       \<and> timeouts (onclose opts 1000 c') = timeouts c'
       \<and> reconnectTimeoutRef (onclose opts 1000 c') = reconnectTimeoutRef c'
       \<and> (\<forall>k d. SetTimeout k d \<notin> set (emitted c' (onclose opts 1000 c')))"
proof -
  let ?d = "disconnect c"
  let ?r = "run pf opts later ?d"
  have d1: "\<not> shouldReconnectRef ?d" "reconnectTimeoutRef ?d = None" "heartbeatIntervalRef ?d = None"
    "wsRef ?d = None"
    by (simp_all add: disconnect_frame)
  have d2: "timeouts ?d = filter (\<lambda>p. fst p \<noteq> h) (timeouts c)
            \<and> h \<notin> fst ` set (timeouts ?d) \<and> ClearTimeout h \<in> set (emitted c ?d)"
    if "reconnectTimeoutRef c = Some h"
    using that by (auto simp add: disconnect_frame emitted_def log_disconnect)
  have d3: "sockets ?d i = Some CLOSING \<and> WsClose i (Some 1000) \<in> set (emitted c ?d)"
    if "wsRef c = Some i \<and> sockets c i = Some OPEN"
  proof -
    from that have "sockets ?d i = Some CLOSING"
      by (auto simp add: disconnect_def Let_def ws_close_def clearTimeout_def emit_def
          stopHeartbeat_def split: option.split)
    moreover from that have "WsClose i (Some 1000) \<in> set (emitted c ?d)"
      by (simp add: emitted_def log_disconnect)
    ultimately show ?thesis
      by simp
  qed
  from cleared_run [OF d1(1) assms, of pf opts]
  obtain fs where r: "\<not> shouldReconnectRef ?r" "set (timeouts ?r) \<subseteq> set (timeouts ?d)"
    "nextSocket ?r = nextSocket ?d" "log ?r = log ?d @ fs" "quiet fs"
    by blast
  have r0: "connect pf opts ?r = ?r"
    using r(1) by (simp add: connect_constructs(3))
  have r3: "nextSocket ?r = nextSocket c"
    using r(3) by (simp add: disconnect_frame)
  have em: "emitted c ?r =
      (case reconnectTimeoutRef c of None \<Rightarrow> [] | Some h \<Rightarrow> [ClearTimeout h])
      @ (case wsRef c of None \<Rightarrow> [] | Some i \<Rightarrow> [WsClose i (Some 1000)]) @ fs"
    by (simp add: emitted_def r(4) log_disconnect)
  have r4: "\<forall>j u. NewWebSocket j u \<notin> set (emitted c ?r)"
    using r(5) by (simp add: em quiet_def split: option.split)
  have r5: "\<forall>k d. SetTimeout k d \<notin> set (emitted c ?r)"
    using r(5) by (simp add: em quiet_def split: option.split)
  have r6: "timeouts ?r = []" if "permitted pf opts es (init t) \<and> c = run pf opts es (init t)"
  proof -
    from that have "orderly c"
      by (simp add: orderly_permitted [OF orderly_init])
    then have "timeouts ?d = []"
      by (rule disconnect_cancels)
    with r(2) show ?thesis
      by simp
  qed
  have k1: "timeouts (onclose opts 1000 c') = timeouts c'"
    "reconnectTimeoutRef (onclose opts 1000 c') = reconnectTimeoutRef c'"
    using onclose_timeouts [of opts 1000 c'] by auto
  have k2: "\<forall>k d. SetTimeout k d \<notin> set (emitted c' (onclose opts 1000 c'))"
    by (simp add: emitted_def log_onclose)
  from d1 d2 d3 r(1,2) r0 r3 r4 r5 r6 k1 k2 show ?thesis
    by blast
qed

theorem disconnect_no_reconnect_witness:
  "Mount \<notin> set [SockClose 1 1006, TimeoutFire 1, CallConnect, HeartbeatTick 100000]
   \<and> reconnectTimeoutRef retry_pending_session = Some 1
   \<and> timeouts retry_pending_session = [(1, 4000)]
   \<and> wsRef retry_pending_session = Some 1 \<and> sockets retry_pending_session 1 = Some OPEN
   \<and> timeouts (disconnect retry_pending_session) = []
   \<and> sockets (disconnect retry_pending_session) 1 = Some CLOSING
   \<and> nextSocket (run browser all_handlers
        [SockClose 1 1006, TimeoutFire 1, CallConnect, HeartbeatTick 100000]
        (disconnect retry_pending_session)) = 2
   \<and> timeouts (run browser all_handlers
        [SockClose 1 1006, TimeoutFire 1, CallConnect, HeartbeatTick 100000]
        (disconnect retry_pending_session)) = []"
proof -
  let ?later = "[SockClose 1 1006, TimeoutFire 1, CallConnect, HeartbeatTick 100000]"
  let ?r = "run browser all_handlers ?later (disconnect retry_pending_session)"
  note f = retry_pending_session_fields
  have m: "Mount \<notin> set ?later"
    by simp
  note th = disconnect_no_reconnect [OF m, where c = retry_pending_session and h = 1 and i = 1
      and pf = browser and opts = all_handlers]
  from th f(3) have "timeouts (disconnect retry_pending_session)
      = filter (\<lambda>p. fst p \<noteq> 1) (timeouts retry_pending_session)"
    by blast
  then have t: "timeouts (disconnect retry_pending_session) = []"
    by (simp add: f(4))
  from th f(1,2) have s: "sockets (disconnect retry_pending_session) 1 = Some CLOSING"
    by blast
  from th have "nextSocket ?r = nextSocket retry_pending_session"
    by blast
  then have n: "nextSocket ?r = 2"
    by (simp only: f(5))
  from th have "set (timeouts ?r) \<subseteq> set (timeouts (disconnect retry_pending_session))"
    by blast
  then have e: "timeouts ?r = []"
    by (simp add: t del: run.simps)
  show ?thesis
    by (intro conjI m f(3) f(4) f(1) f(2) t s n e)
qed

section \<open>Reconnect exhaustion\<close>

lemma retrying_mount:
  assumes "WebSocket_accepts pf (fullUrl pf opts)"
  shows "retrying 0 (fire pf opts Mount (init t))"
  using assms
  by (simp add: retrying_def mount_def connect_def current_open_def init_def emit_def Let_def)

lemma retrying_step:
  assumes "retrying k s" and "k < 4" and "code \<noteq> 1000"
    and "WebSocket_accepts pf (fullUrl pf opts)"
  shows "retrying (Suc k) (fire pf opts (TimeoutFire (Suc k)) (fire pf opts (SockClose k code) s))"
proof -
  let ?d = "s\<lparr>sockets := (sockets s)(k \<mapsto> CLOSED)\<rparr>"
  let ?s1 = "onclose opts code ?d"
  from assms(1) have f: "wsRef s = Some k" "sockets s k = Some CONNECTING" "nextSocket s = Suc k"
    "connectionAttemptsRef s = k" "shouldReconnectRef s" "timeouts s = []"
    "nextTimer s = Suc k" "heartbeatIntervalRef s = None"
    "filter is_user_error (log s) = []" "count_list (log s) (ConsoleError ''Max reconnection attempts reached'') = 0"
    by (simp_all add: retrying_def)
  have s1: "fire pf opts (SockClose k code) s = ?s1"
    using f(2) by simp
  have lt: "k + 1 < maxReconnectAttempts"
    using assms(2) by (simp add: maxReconnectAttempts_def)
  have g: "wsRef ?s1 = Some k" "sockets ?s1 = (sockets s)(k \<mapsto> CLOSED)" "nextSocket ?s1 = Suc k"
    "connectionAttemptsRef ?s1 = Suc k" "shouldReconnectRef ?s1"
    "timeouts ?s1 = [(Suc k, reconnect_delay (Suc k))]"
    "nextTimer ?s1 = Suc (Suc k)" "heartbeatIntervalRef ?s1 = None"
    "log ?s1 = log s @ (if has_onDisconnect opts then [OnDisconnect] else [])
        @ [SetTimeout (Suc k) (reconnect_delay (Suc k))]"
    using f assms(3) lt
    by (simp_all add: onclose_def Let_def emit_def stopHeartbeat_def setTimeout_connect_def)
  let ?e = "?s1\<lparr>timeouts := filter (\<lambda>p. fst p \<noteq> Suc k) (timeouts ?s1)\<rparr>"
  have s2: "fire pf opts (TimeoutFire (Suc k)) ?s1 = connect pf opts ?e"
    by (simp add: g(6))
  have h: "wsRef ?e = Some k" "sockets ?e = (sockets s)(k \<mapsto> CLOSED)" "nextSocket ?e = Suc k"
    "connectionAttemptsRef ?e = Suc k" "shouldReconnectRef ?e" "timeouts ?e = []"
    "nextTimer ?e = Suc (Suc k)" "heartbeatIntervalRef ?e = None" "log ?e = log ?s1"
    by (simp_all add: g)
  have no: "\<not> current_open ?e"
    by (simp add: current_open_def h)
  have c: "wsRef (connect pf opts ?e) = Some (Suc k)"
    "sockets (connect pf opts ?e) (Suc k) = Some CONNECTING"
    "nextSocket (connect pf opts ?e) = Suc (Suc k)"
    "connectionAttemptsRef (connect pf opts ?e) = Suc k" "shouldReconnectRef (connect pf opts ?e)"
    "timeouts (connect pf opts ?e) = []" "nextTimer (connect pf opts ?e) = Suc (Suc k)"
    "heartbeatIntervalRef (connect pf opts ?e) = None"
    "log (connect pf opts ?e) = log ?s1 @ [NewWebSocket (Suc k) (fullUrl pf opts)]"
    using no h assms(4)
    by (simp_all add: connect_def Let_def emit_def)
  have l1: "filter is_user_error (log (connect pf opts ?e)) = []"
    by (simp add: c(9) g(9) f(9))
  have l2: "count_list (log (connect pf opts ?e)) (ConsoleError ''Max reconnection attempts reached'') = 0"
    by (simp add: c(9) g(9) f(10))
  show ?thesis
    unfolding s1 s2 retrying_def
    using c(1-8) l1 l2 by blast
qed

lemma retrying_last:
  assumes "retrying k s" and "Suc k = maxReconnectAttempts" and "code \<noteq> 1000"
  shows "timeouts (fire pf opts (TimeoutFire (Suc k)) (fire pf opts (SockClose k code) s)) = []
       \<and> heartbeatIntervalRef (fire pf opts (TimeoutFire (Suc k)) (fire pf opts (SockClose k code) s)) = None
       \<and> connectionStatus (fire pf opts (TimeoutFire (Suc k)) (fire pf opts (SockClose k code) s)) = Disconnected
       \<and> \<not> isConnected (fire pf opts (TimeoutFire (Suc k)) (fire pf opts (SockClose k code) s))
       \<and> connectionAttemptsRef (fire pf opts (TimeoutFire (Suc k)) (fire pf opts (SockClose k code) s)) = 5
       \<and> nextSocket (fire pf opts (TimeoutFire (Suc k)) (fire pf opts (SockClose k code) s)) = 5
       \<and> filter is_user_error (log (fire pf opts (TimeoutFire (Suc k)) (fire pf opts (SockClose k code) s))) = []
       \<and> count_list (log (fire pf opts (TimeoutFire (Suc k)) (fire pf opts (SockClose k code) s)))
            (ConsoleError ''Max reconnection attempts reached'') = 1"
proof -
  let ?d = "s\<lparr>sockets := (sockets s)(k \<mapsto> CLOSED)\<rparr>"
  let ?s1 = "onclose opts code ?d"
  from assms(2) have k: "Suc k = 5"
    by (simp add: maxReconnectAttempts_def)
  from assms(1) have f: "wsRef s = Some k" "sockets s k = Some CONNECTING" "nextSocket s = Suc k"
    "connectionAttemptsRef s = k" "shouldReconnectRef s" "timeouts s = []"
    "heartbeatIntervalRef s = None"
    "filter is_user_error (log s) = []"
    "count_list (log s) (ConsoleError ''Max reconnection attempts reached'') = 0"
    by (simp_all add: retrying_def)
  have s1: "fire pf opts (SockClose k code) s = ?s1"
    using f(2) by simp
  have g: "nextSocket ?s1 = 5" "connectionAttemptsRef ?s1 = 5" "timeouts ?s1 = []"
    "heartbeatIntervalRef ?s1 = None" "connectionStatus ?s1 = Disconnected" "\<not> isConnected ?s1"
    "log ?s1 = log s @ (if has_onDisconnect opts then [OnDisconnect] else [])
        @ [ConsoleError ''Max reconnection attempts reached'']"
    using f assms(3) k
    by (simp_all add: onclose_def Let_def emit_def stopHeartbeat_def setTimeout_connect_def
        maxReconnectAttempts_def)
  have s2: "fire pf opts (TimeoutFire (Suc k)) ?s1 = ?s1"
    by (simp add: g(3))
  have l1: "filter is_user_error (log ?s1) = []"
    by (simp add: g(7) f(8))
  have l2: "count_list (log ?s1) (ConsoleError ''Max reconnection attempts reached'') = 1"
    by (simp add: g(7) f(9))
  show ?thesis
    unfolding s1 s2 using g(1-6) l1 l2 by blast
qed

text \<open>
  C5, as stated, fails: after five abnormal closes in a row, with an error callback given,
  the error callback has not been called at all (the claim says exactly once); the close
  handler never calls it.
\<close>

theorem reconnect_exhaustion_counterexample:
  "has_onError all_handlers
   \<and> connectionAttemptsRef (run browser all_handlers
        (Mount # failure_run 0 [1006, 1006, 1006, 1006, 1006]) (init 0)) = 5
   \<and> length (filter is_user_error (log (run browser all_handlers
        (Mount # failure_run 0 [1006, 1006, 1006, 1006, 1006]) (init 0)))) = 0"
proof -
  have a: "WebSocket_accepts browser (fullUrl browser all_handlers)"
    by (simp add: browser_def)
  have n: "(1006::nat) \<noteq> 1000"
    by simp
  have lt: "0 < (4::nat)" "Suc 0 < 4" "Suc (Suc 0) < 4" "Suc (Suc (Suc 0)) < 4"
    "Suc (Suc (Suc (Suc (Suc 0)))) = maxReconnectAttempts"
    by (simp_all add: maxReconnectAttempts_def)
  note r0 = retrying_mount [OF a, of 0]
  note r1 = retrying_step [OF r0 lt(1) n a]
  note r2 = retrying_step [OF r1 lt(2) n a]
  note r3 = retrying_step [OF r2 lt(3) n a]
  note r4 = retrying_step [OF r3 lt(4) n a]
  note fin = retrying_last [OF r4 lt(5) n, of browser all_handlers]
  have "connectionAttemptsRef (run browser all_handlers
        (Mount # failure_run 0 [1006, 1006, 1006, 1006, 1006]) (init 0)) = 5"
    by (simp only: run.simps failure_run.simps) (rule fin [THEN conjunct2, THEN conjunct2,
        THEN conjunct2, THEN conjunct2, THEN conjunct1])
  moreover have "filter is_user_error (log (run browser all_handlers
        (Mount # failure_run 0 [1006, 1006, 1006, 1006, 1006]) (init 0))) = []"
    by (simp only: run.simps failure_run.simps) (rule fin [THEN conjunct2, THEN conjunct2,
        THEN conjunct2, THEN conjunct2, THEN conjunct2, THEN conjunct2, THEN conjunct1])
  ultimately show ?thesis
    using has_onError_all by (simp del: run.simps failure_run.simps fire.simps)
qed

text \<open>
  C5, amended. After the mount effect and 5 consecutive abnormal closes (any codes other
  than 1000) with no successful open in between, each followed by its retry timer, the
  attempt counter is 5, five sockets have been constructed (the first and four retries),
  no retry and no heartbeat is armed, the status is disconnected, the exhaustion message
  'Max reconnection attempts reached' has been written to the console exactly once, and
  the error callback has not been called.
\<close>

theorem reconnect_exhaustion:
  assumes "WebSocket_accepts pf (fullUrl pf opts)" and "length codes = 5"
    and "\<forall>code\<in>set codes. code \<noteq> 1000"
  shows "timeouts (run pf opts (Mount # failure_run 0 codes) (init t)) = []
       \<and> heartbeatIntervalRef (run pf opts (Mount # failure_run 0 codes) (init t)) = None
       \<and> connectionStatus (run pf opts (Mount # failure_run 0 codes) (init t)) = Disconnected
       \<and> \<not> isConnected (run pf opts (Mount # failure_run 0 codes) (init t))
       \<and> connectionAttemptsRef (run pf opts (Mount # failure_run 0 codes) (init t)) = 5
       \<and> nextSocket (run pf opts (Mount # failure_run 0 codes) (init t)) = 5
       \<and> filter is_user_error (log (run pf opts (Mount # failure_run 0 codes) (init t))) = []
       \<and> count_list (log (run pf opts (Mount # failure_run 0 codes) (init t)))
            (ConsoleError ''Max reconnection attempts reached'') = 1"
proof -
  from assms(2) obtain a b c d e where codes: "codes = [a, b, c, d, e]"
    by (auto simp add: length_Suc_conv eval_nat_numeral)
  with assms(3) have ab: "a \<noteq> 1000" "b \<noteq> 1000" "c \<noteq> 1000" "d \<noteq> 1000" "e \<noteq> 1000"
    by simp_all
  have lt: "0 < (4::nat)" "Suc 0 < 4" "Suc (Suc 0) < 4" "Suc (Suc (Suc 0)) < 4"
    "Suc (Suc (Suc (Suc (Suc 0)))) = maxReconnectAttempts"
    by (simp_all add: maxReconnectAttempts_def)
  note r0 = retrying_mount [OF assms(1), of t]
  note r1 = retrying_step [OF r0 lt(1) ab(1) assms(1)]
  note r2 = retrying_step [OF r1 lt(2) ab(2) assms(1)]
  note r3 = retrying_step [OF r2 lt(3) ab(3) assms(1)]
  note r4 = retrying_step [OF r3 lt(4) ab(4) assms(1)]
  note fin = retrying_last [OF r4 lt(5) ab(5), of pf opts]
  show ?thesis
    unfolding codes by (simp only: run.simps failure_run.simps) (rule fin)
qed

theorem reconnect_exhaustion_witness:
  "WebSocket_accepts browser (fullUrl browser all_handlers)
   \<and> length [1006, 1001, 1011, 1006, 4000 :: nat] = 5
   \<and> (1006::nat) \<noteq> 1000 \<and> (1001::nat) \<noteq> 1000 \<and> (1011::nat) \<noteq> 1000 \<and> (4000::nat) \<noteq> 1000
   \<and> timeouts (run browser all_handlers (Mount # failure_run 0 [1006, 1001, 1011, 1006, 4000]) (init 0)) = []
   \<and> connectionStatus (run browser all_handlers (Mount # failure_run 0 [1006, 1001, 1011, 1006, 4000]) (init 0))
        = Disconnected
   \<and> nextSocket (run browser all_handlers (Mount # failure_run 0 [1006, 1001, 1011, 1006, 4000]) (init 0)) = 5"
proof -
  have a: "WebSocket_accepts browser (fullUrl browser all_handlers)"
    by (simp add: browser_def)
  have l: "length [1006, 1001, 1011, 1006, 4000 :: nat] = 5"
    by simp
  have n: "\<forall>code\<in>set [1006, 1001, 1011, 1006, 4000 :: nat]. code \<noteq> 1000"
    by simp
  from reconnect_exhaustion [OF a l n, of 0] a show ?thesis
    by (simp del: run.simps failure_run.simps fire.simps)
qed

section \<open>Backoff\<close>

text \<open>
  C3, as stated, fails at n = 5: when an abnormal close raises the attempt counter from 4
  to 5 while shouldReconnect is set, no retry is scheduled at all (the claim promises one
  with delay min(2000 * 2^5, 30000) = 30000); the hook only logs that the attempts are
  used up.
\<close>

theorem backoff_fifth_close_counterexample:
  "shouldReconnectRef ((init 0)\<lparr>connectionAttemptsRef := 4\<rparr>)
   \<and> connectionAttemptsRef (onclose all_handlers 1006 ((init 0)\<lparr>connectionAttemptsRef := 4\<rparr>)) = 5
   \<and> timeouts (onclose all_handlers 1006 ((init 0)\<lparr>connectionAttemptsRef := 4\<rparr>)) = []
   \<and> emitted ((init 0)\<lparr>connectionAttemptsRef := 4\<rparr>)
        (onclose all_handlers 1006 ((init 0)\<lparr>connectionAttemptsRef := 4\<rparr>))
      = [OnDisconnect, ConsoleError ''Max reconnection attempts reached'']"
  by (simp add: onclose_def Let_def emit_def stopHeartbeat_def setTimeout_connect_def
      maxReconnectAttempts_def init_def all_handlers_def emitted_def)

text \<open>
  C3, amended. For every abnormal close (code other than 1000) that, with shouldReconnect
  set, raises the attempt counter to a value n with 1 \<le> n \<le> 4, the hook schedules one
  retry, with delay min(2000 * 2^n, 30000) ms, and this delay is non-decreasing in n.
\<close>

theorem backoff_delay:
  assumes "shouldReconnectRef c" and "code \<noteq> 1000"
    and "connectionAttemptsRef c + 1 = n" and "n \<le> 4"
  shows "timeouts (onclose opts code c) = timeouts c @ [(nextTimer c, min (2000 * 2 ^ n) 30000)]
       \<and> reconnectTimeoutRef (onclose opts code c) = Some (nextTimer c)
       \<and> reconnect_delay n = min (2000 * 2 ^ n) 30000
       \<and> (\<forall>m\<le>n. reconnect_delay m \<le> reconnect_delay n)"
proof (intro conjI)
  from assms have lt: "n < maxReconnectAttempts"
    by (simp add: maxReconnectAttempts_def)
  show d: "reconnect_delay n = min (2000 * 2 ^ n) 30000"
    by (simp add: reconnect_delay_def baseReconnectDelay_def)
  from assms lt have "timeouts (onclose opts code c) = timeouts c @ [(nextTimer c, reconnect_delay n)]"
    by (simp add: onclose_def Let_def emit_def stopHeartbeat_def setTimeout_connect_def)
  then show "timeouts (onclose opts code c) = timeouts c @ [(nextTimer c, min (2000 * 2 ^ n) 30000)]"
    by (simp only: d)
  from assms lt show "reconnectTimeoutRef (onclose opts code c) = Some (nextTimer c)"
    by (simp add: onclose_def Let_def emit_def stopHeartbeat_def setTimeout_connect_def)
  show "\<forall>m\<le>n. reconnect_delay m \<le> reconnect_delay n"
    by (simp add: reconnect_delay_mono)
qed

theorem backoff_delay_witness:
  "shouldReconnectRef (init 0) \<and> (1006::nat) \<noteq> 1000 \<and> connectionAttemptsRef (init 0) + 1 = 1
   \<and> (1::nat) \<le> 4
   \<and> timeouts (onclose all_handlers 1006 (init 0)) = [(1, 4000)]
   \<and> reconnect_delay 1 = 4000"
  using backoff_delay [of "init 0" 1006 1 all_handlers]
  by (simp add: init_def)

end
